theory Spec2Isabelle
  imports Complex_Main "HOL-Library.Product_Lexorder"
begin

section \<open>Data model\<close>

text \<open>
  A Python float that is not NaN: a finite value or one of the two infinities
  \<^verbatim>\<open>float("-inf")\<close> and \<^verbatim>\<open>float("inf")\<close>. A finite float is kept as the rational number it
  stands for, so comparisons are exactly Python's. Arithmetic on floats rounds: see
  \<open>round_double\<close> below.
\<close>

datatype pyfloat = NegInf | Fin rat | PosInf

instantiation pyfloat :: linorder
begin

definition less_eq_pyfloat :: "pyfloat \<Rightarrow> pyfloat \<Rightarrow> bool" where
  "less_eq_pyfloat x y =
     (case x of
        NegInf \<Rightarrow> True
      | Fin a \<Rightarrow> (case y of NegInf \<Rightarrow> False | Fin b \<Rightarrow> a \<le> b | PosInf \<Rightarrow> True)
      | PosInf \<Rightarrow> (case y of PosInf \<Rightarrow> True | _ \<Rightarrow> False))"

definition less_pyfloat :: "pyfloat \<Rightarrow> pyfloat \<Rightarrow> bool" where
  "less_pyfloat x y = (x \<le> y \<and> \<not> y \<le> (x::pyfloat))"

instance
proof
  fix x y z :: pyfloat
  show "(x < y) = (x \<le> y \<and> \<not> y \<le> x)"
    by (simp add: less_pyfloat_def)
  show "x \<le> x"
    by (cases x) (simp_all add: less_eq_pyfloat_def)
  show "x \<le> y \<Longrightarrow> y \<le> z \<Longrightarrow> x \<le> z"
    by (cases x; cases y; cases z) (simp_all add: less_eq_pyfloat_def)
  show "x \<le> y \<Longrightarrow> y \<le> x \<Longrightarrow> x = y"
    by (cases x; cases y) (simp_all add: less_eq_pyfloat_def)
  show "x \<le> y \<or> y \<le> x"
    by (cases x; cases y) (auto simp add: less_eq_pyfloat_def)
qed

end

subsection \<open>Double-precision arithmetic\<close>

text \<open>
  Python floats are IEEE 754 doubles: 53 significant bits, and the result of a literal, of
  a conversion from \<^verbatim>\<open>int\<close>, of a product or of a sum is the exact value rounded to the
  nearest double, a tie going to the double whose last bit is even.

  \<open>round_half_even\<close> rounds a rational to the nearest integer in that way, \<open>bit_length n\<close>
  is the number of binary digits of \<open>n\<close> (Python's \<^verbatim>\<open>int.bit_length\<close>), and \<open>pow2 e\<close> is the
  power of two with exponent \<open>e\<close>.
\<close>

definition round_half_even :: "rat \<Rightarrow> int" where
  "round_half_even x =
     (let f = \<lfloor>x\<rfloor>; r = x - of_int f in
      if r < 1 / 2 then f else if 1 / 2 < r then f + 1 else if even f then f else f + 1)"

function bit_length :: "int \<Rightarrow> int" where
  "bit_length n = (if n \<le> 0 then 0 else 1 + bit_length (n div 2))"
  by pat_completeness auto

termination
  by (relation "measure nat") auto

declare bit_length.simps [simp del]

definition pow2 :: "int \<Rightarrow> rat" where
  "pow2 e = (if 0 \<le> e then 2 ^ nat e else 1 / 2 ^ nat (- e))"

text \<open>
  For a positive rational \<open>x\<close>, \<open>ulp_exponent x\<close> is the exponent \<open>e\<close> with
  \<open>2 ^ 52 \<le> x / 2 ^ e < 2 ^ 53\<close>: the doubles around \<open>x\<close> are the multiples of \<open>2 ^ e\<close>. With \<open>x = a / b\<close>
  in lowest terms and \<open>k\<close> the difference of the bit lengths of \<open>a\<close> and \<open>b\<close>, \<open>x\<close> lies
  between \<open>2 ^ (k - 1)\<close> and \<open>2 ^ (k + 1)\<close>, which leaves the two candidates \<open>k - 53\<close> and \<open>k - 52\<close>.
\<close>

definition ulp_exponent :: "rat \<Rightarrow> int" where
  "ulp_exponent x =
     (let (a, b) = quotient_of x;
          k = bit_length a - bit_length b
      in if 2 ^ 53 \<le> x / pow2 (k - 53) then k - 52 else k - 53)"

text \<open>
  \<open>round_double x\<close> is the double nearest to \<open>x\<close>, as a rational. The exponent range of the
  doubles is not represented: the values that occur below are 0 or of a magnitude between
  \<open>2 ^ (-7)\<close> and \<open>2 ^ 64\<close> (coefficients between 0.01 and 1 and counts that are lengths of lists,
  which are below \<open>2 ^ 63\<close>), far from overflow and from the subnormal numbers.
\<close>

definition round_double :: "rat \<Rightarrow> rat" where
  "round_double x =
     (if x = 0 then 0
      else let e = ulp_exponent \<bar>x\<bar> in
           sgn x * of_int (round_half_even (\<bar>x\<bar> / pow2 e)) * pow2 e)"

text \<open>The product and the sum of two finite floats, and the conversion of an \<^verbatim>\<open>int\<close> (here
  a length) to a float, as Python does it when one operand of \<^verbatim>\<open>*\<close> is a float.\<close>

definition float_mul :: "rat \<Rightarrow> rat \<Rightarrow> rat" where
  "float_mul x y = round_double (x * y)"

definition float_add :: "rat \<Rightarrow> rat \<Rightarrow> rat" where
  "float_add x y = round_double (x + y)"

definition float_of_nat :: "nat \<Rightarrow> rat" where
  "float_of_nat n = round_double (of_nat n)"

subsection \<open>Boards, players and traces\<close>

text \<open>A move is a (row, column) pair; \<^verbatim>\<open>(-1, -1)\<close> is the "no move" sentinel.\<close>

type_synonym move = "int \<times> int"

definition no_move :: move where
  "no_move = (-1, -1)"

text \<open>
  The board class is not part of the sources; the methods the agent calls on a board are
  taken as parameters. \<open>'b\<close> is the type of board snapshots, \<open>'p\<close> the type of player
  handles. \<open>get_legal_moves G game None\<close> is \<^verbatim>\<open>game.get_legal_moves()\<close> (the side to move),
  \<open>get_legal_moves G game (Some q)\<close> is \<^verbatim>\<open>game.get_legal_moves(q)\<close>.
\<close>

record ('b, 'p) board_ops =
  get_legal_moves :: "'b \<Rightarrow> 'p option \<Rightarrow> move list"
  forecast_move :: "'b \<Rightarrow> move \<Rightarrow> 'b"
  is_loser :: "'b \<Rightarrow> 'p \<Rightarrow> bool"
  is_winner :: "'b \<Rightarrow> 'p \<Rightarrow> bool"
  get_opponent :: "'b \<Rightarrow> 'p \<Rightarrow> 'p"

text \<open>
  The fields of a \<^verbatim>\<open>CustomPlayer\<close>. \<open>self\<close> is the handle under which the boards know this
  player (the object itself in Python); \<open>method_name\<close> is the field \<^verbatim>\<open>self.method\<close>.
  \<open>time_left\<close> is the clock callable stored by \<^verbatim>\<open>get_move\<close>: \<open>time_left p k\<close> is what its
  \<open>k\<close>-th call returns (counting from 0).
\<close>

record ('b, 'p) custom_player =
  self :: 'p
  search_depth :: int
  iterative :: bool
  score :: "'b \<Rightarrow> 'p \<Rightarrow> pyfloat"
  method_name :: string
  time_left :: "nat \<Rightarrow> pyfloat"
  TIMER_THRESHOLD :: pyfloat

text \<open>
  What a run has done to the outside so far: how many times the clock was read, and the
  arguments of every call of the evaluator \<^verbatim>\<open>self.score\<close>, oldest first.
\<close>

record ('b, 'p) trace =
  ticks :: nat
  evals :: "('b \<times> 'p) list"

datatype error = Timeout | ValueError

text \<open>
  A call either raises or returns, and in both cases leaves a trace. The search functions
  below take a bound on the depth of nested calls; \<open>None\<close> means the bound was reached.
\<close>

type_synonym ('a, 'b, 'p) outcome = "((error + 'a) \<times> ('b, 'p) trace) option"

section \<open>The evaluator\<close>

text \<open>
  \<^verbatim>\<open>custom_score\<close>, the evaluator \<^verbatim>\<open>moves_combined\<close> with the coefficient 0.77 written
  out (the call of \<^verbatim>\<open>moves_combined\<close> is commented out in its body). Its last line is
  \<^verbatim>\<open>float(0.77 * my_moves + 0.23 * opp_moves)\<close>: two literals, two conversions of a length,
  two products and a sum, each rounded; \<^verbatim>\<open>float\<close> of a float is that float.
\<close>

definition custom_score :: "('b, 'p) board_ops \<Rightarrow> 'b \<Rightarrow> 'p \<Rightarrow> pyfloat" where
  "custom_score G game player =
     (if is_loser G game player then NegInf
      else if is_winner G game player then PosInf
      else
        let my_moves = length (get_legal_moves G game (Some player));
            opp_moves = length (get_legal_moves G game (Some (get_opponent G game player)))
        in Fin (float_add (float_mul (round_double (77 / 100)) (float_of_nat my_moves))
                          (float_mul (round_double (23 / 100)) (float_of_nat opp_moves))))"

section \<open>The search engine\<close>

definition read_clock ::
  "('b, 'p) custom_player \<Rightarrow> ('b, 'p) trace \<Rightarrow> pyfloat \<times> ('b, 'p) trace" where
  "read_clock p st = (time_left p (ticks st), st\<lparr>ticks := Suc (ticks st)\<rparr>)"

definition call_score ::
  "('b, 'p) custom_player \<Rightarrow> 'b \<Rightarrow> 'p \<Rightarrow> ('b, 'p) trace \<Rightarrow> pyfloat \<times> ('b, 'p) trace" where
  "call_score p game player st =
     (score p game player, st\<lparr>evals := evals st @ [(game, player)]\<rparr>)"

text \<open>
  Python's \<^verbatim>\<open>max\<close> and \<^verbatim>\<open>min\<close> of a list: the first element is the candidate, a later one
  replaces it when strictly greater (smaller); an empty list raises \<^verbatim>\<open>ValueError\<close>.
\<close>

definition py_max :: "'a::linorder list \<Rightarrow> error + 'a" where
  "py_max xs =
     (case xs of [] \<Rightarrow> Inl ValueError
      | x # rest \<Rightarrow> Inr (foldl (\<lambda>best y. if y > best then y else best) x rest))"

definition py_min :: "'a::linorder list \<Rightarrow> error + 'a" where
  "py_min xs =
     (case xs of [] \<Rightarrow> Inl ValueError
      | x # rest \<Rightarrow> Inr (foldl (\<lambda>best y. if y < best then y else best) x rest))"

text \<open>
  The comprehension of the \<^verbatim>\<open>depth == 1\<close> branch of \<^verbatim>\<open>minimax\<close>:
  \<^verbatim>\<open>[(self.score(game.forecast_move(m), self), m) for m in legal_moves]\<close>.
\<close>

fun score_children ::
  "('b, 'p) board_ops \<Rightarrow> ('b, 'p) custom_player \<Rightarrow> 'b \<Rightarrow> move list \<Rightarrow> ('b, 'p) trace
   \<Rightarrow> (pyfloat \<times> move) list \<times> ('b, 'p) trace" where
  "score_children G p game [] st = ([], st)"
| "score_children G p game (m # ms) st =
     (case call_score p (forecast_move G game m) (self p) st of
        (v, st1) \<Rightarrow>
          (case score_children G p game ms st1 of
             (rest, st2) \<Rightarrow> ((v, m) # rest, st2)))"

text \<open>
  \<^verbatim>\<open>minimax\<close>, with the comprehension of its recursive branch as \<open>minimax_children\<close>.
  The first argument bounds the nesting of calls.
\<close>

fun minimax ::
  "nat \<Rightarrow> ('b, 'p) board_ops \<Rightarrow> ('b, 'p) custom_player \<Rightarrow> 'b \<Rightarrow> int \<Rightarrow> bool
   \<Rightarrow> ('b, 'p) trace \<Rightarrow> (pyfloat \<times> move, 'b, 'p) outcome"
and minimax_children ::
  "nat \<Rightarrow> ('b, 'p) board_ops \<Rightarrow> ('b, 'p) custom_player \<Rightarrow> 'b \<Rightarrow> int \<Rightarrow> bool
   \<Rightarrow> move list \<Rightarrow> ('b, 'p) trace \<Rightarrow> ((pyfloat \<times> move) list, 'b, 'p) outcome"
where
  "minimax 0 G p game depth maximizing_player st = None"
| "minimax (Suc fuel) G p game depth maximizing_player st =
     (case read_clock p st of
        (t, st1) \<Rightarrow>
          if t < TIMER_THRESHOLD p then Some (Inl Timeout, st1)
          else
            let legal_moves = get_legal_moves G game None in
            if legal_moves = [] then
              (case call_score p game (self p) st1 of
                 (v, st2) \<Rightarrow> Some (Inr (v, no_move), st2))
            else
              (case (if depth = 1 then
                       (case score_children G p game legal_moves st1 of
                          (children, st2) \<Rightarrow> Some (Inr children, st2))
                     else minimax_children fuel G p game depth maximizing_player
                            legal_moves st1) of
                 None \<Rightarrow> None
               | Some (Inl e, st2) \<Rightarrow> Some (Inl e, st2)
               | Some (Inr children, st2) \<Rightarrow>
                   Some (if maximizing_player then py_max children else py_min children,
                         st2)))"
| "minimax_children fuel G p game depth maximizing_player [] st = Some (Inr [], st)"
| "minimax_children fuel G p game depth maximizing_player (m # ms) st =
     (case minimax fuel G p (forecast_move G game m) (depth - 1)
             (\<not> maximizing_player) st of
        None \<Rightarrow> None
      | Some (Inl e, st1) \<Rightarrow> Some (Inl e, st1)
      | Some (Inr r, st1) \<Rightarrow>
          (case minimax_children fuel G p game depth maximizing_player ms st1 of
             None \<Rightarrow> None
           | Some (Inl e, st2) \<Rightarrow> Some (Inl e, st2)
           | Some (Inr rest, st2) \<Rightarrow> Some (Inr ((fst r, m) # rest), st2)))"

text \<open>
  The two helpers of \<^verbatim>\<open>alphabeta\<close>, \<^verbatim>\<open>__prune__\<close> and \<^verbatim>\<open>__update_limit__\<close>. The
  variable \<^verbatim>\<open>score\<close> of the source is written \<open>score'\<close>, \<open>score\<close> being the player's field.
\<close>

definition prune :: "pyfloat \<Rightarrow> pyfloat \<Rightarrow> pyfloat \<Rightarrow> bool \<Rightarrow> bool" where
  "prune old_alpha old_beta score' maximizing_player =
     ((maximizing_player \<and> old_beta \<le> score') \<or> (\<not> maximizing_player \<and> old_alpha \<ge> score'))"

definition update_limit :: "pyfloat \<Rightarrow> pyfloat \<Rightarrow> pyfloat \<Rightarrow> bool \<Rightarrow> pyfloat \<times> pyfloat" where
  "update_limit old_alpha old_beta score' maximizing_player =
     (if maximizing_player then (score', old_beta) else (old_alpha, score'))"

text \<open>
  \<^verbatim>\<open>alphabeta\<close>, with its \<^verbatim>\<open>for move in legal_moves\<close> loop as \<open>alphabeta_loop\<close>; the loop
  carries \<^verbatim>\<open>alpha\<close>, \<^verbatim>\<open>beta\<close>, \<^verbatim>\<open>best_score\<close> and \<^verbatim>\<open>best_move\<close>, and \<^verbatim>\<open>break\<close> returns
  at once what follows the loop.
\<close>

fun alphabeta ::
  "nat \<Rightarrow> ('b, 'p) board_ops \<Rightarrow> ('b, 'p) custom_player \<Rightarrow> 'b \<Rightarrow> int \<Rightarrow> pyfloat \<Rightarrow> pyfloat
   \<Rightarrow> bool \<Rightarrow> ('b, 'p) trace \<Rightarrow> (pyfloat \<times> move, 'b, 'p) outcome"
and alphabeta_loop ::
  "nat \<Rightarrow> ('b, 'p) board_ops \<Rightarrow> ('b, 'p) custom_player \<Rightarrow> 'b \<Rightarrow> int \<Rightarrow> bool \<Rightarrow> move list
   \<Rightarrow> pyfloat \<Rightarrow> pyfloat \<Rightarrow> pyfloat \<Rightarrow> move \<Rightarrow> ('b, 'p) trace
   \<Rightarrow> (pyfloat \<times> move, 'b, 'p) outcome"
where
  "alphabeta 0 G p game depth alpha beta maximizing_player st = None"
| "alphabeta (Suc fuel) G p game depth alpha beta maximizing_player st =
     (case read_clock p st of
        (t, st1) \<Rightarrow>
          if t < TIMER_THRESHOLD p then Some (Inl Timeout, st1)
          else
            let legal_moves = get_legal_moves G game None in
            if depth = 0 \<or> legal_moves = [] then
              (case call_score p game (self p) st1 of
                 (v, st2) \<Rightarrow> Some (Inr (v, no_move), st2))
            else
              alphabeta_loop fuel G p game depth maximizing_player legal_moves alpha beta
                (if maximizing_player then NegInf else PosInf) (hd legal_moves) st1)"
| "alphabeta_loop fuel G p game depth maximizing_player [] alpha beta best_score best_move st =
     Some (Inr (best_score, best_move), st)"
| "alphabeta_loop fuel G p game depth maximizing_player (move # rest) alpha beta best_score
     best_move st =
     (case alphabeta fuel G p (forecast_move G game move) (depth - 1) alpha beta
             (\<not> maximizing_player) st of
        None \<Rightarrow> None
      | Some (Inl e, st1) \<Rightarrow> Some (Inl e, st1)
      | Some (Inr r, st1) \<Rightarrow>
          let score' = fst r in
          if (maximizing_player \<and> score' > best_score)
             \<or> (\<not> maximizing_player \<and> score' < best_score) then
            if prune alpha beta score' maximizing_player then Some (Inr (score', move), st1)
            else
              (case update_limit alpha beta score' maximizing_player of
                 (alpha', beta') \<Rightarrow>
                   alphabeta_loop fuel G p game depth maximizing_player rest alpha' beta'
                     score' move st1)
          else
            alphabeta_loop fuel G p game depth maximizing_player rest alpha beta best_score
              best_move st1)"

section \<open>The driver\<close>

text \<open>
  The \<^verbatim>\<open>while True\<close> loop of iterative deepening. \<open>search\<close> is the bound method chosen by
  \<^verbatim>\<open>get_move\<close>; the first argument bounds the number of iterations (\<open>None\<close>: not finished
  within the bound). \<^verbatim>\<open>except Timeout: pass\<close> is the \<open>Inl Timeout\<close> branch; any other
  exception leaves \<^verbatim>\<open>get_move\<close>.
\<close>

fun deepen ::
  "nat \<Rightarrow> ('b \<Rightarrow> int \<Rightarrow> bool \<Rightarrow> ('b, 'p) trace \<Rightarrow> (pyfloat \<times> move, 'b, 'p) outcome) \<Rightarrow> 'b
   \<Rightarrow> int \<Rightarrow> move \<Rightarrow> ('b, 'p) trace \<Rightarrow> (move, 'b, 'p) outcome" where
  "deepen 0 search game current_depth best_move st = None"
| "deepen (Suc n) search game current_depth best_move st =
     (case search game current_depth True st of
        None \<Rightarrow> None
      | Some (Inl Timeout, st1) \<Rightarrow> Some (Inr best_move, st1)
      | Some (Inl e, st1) \<Rightarrow> Some (Inl e, st1)
      | Some (Inr r, st1) \<Rightarrow> deepen n search game (current_depth + 1) (snd r) st1)"

text \<open>
  The \<^verbatim>\<open>try\<close> block of \<^verbatim>\<open>get_move\<close> with its \<^verbatim>\<open>except Timeout: pass\<close>, followed by
  \<^verbatim>\<open>return best_move\<close>: a search that raises \<^verbatim>\<open>Timeout\<close> leaves \<^verbatim>\<open>best_move\<close> as it was.
\<close>

definition try_search ::
  "nat \<Rightarrow> ('b, 'p) custom_player
   \<Rightarrow> ('b \<Rightarrow> int \<Rightarrow> bool \<Rightarrow> ('b, 'p) trace \<Rightarrow> (pyfloat \<times> move, 'b, 'p) outcome) \<Rightarrow> 'b
   \<Rightarrow> move \<Rightarrow> ('b, 'p) trace \<Rightarrow> (move, 'b, 'p) outcome" where
  "try_search fuel p search_method game best_move st =
     (if \<not> iterative p then
        let fixed_depth = search_depth p in
        (case search_method game fixed_depth True st of
           None \<Rightarrow> None
         | Some (Inl Timeout, st1) \<Rightarrow> Some (Inr best_move, st1)
         | Some (Inl e, st1) \<Rightarrow> Some (Inl e, st1)
         | Some (Inr r, st1) \<Rightarrow> Some (Inr (snd r), st1))
      else deepen fuel search_method game 1 best_move st)"

text \<open>
  \<^verbatim>\<open>get_move\<close>. \<open>fuel\<close> bounds both the nesting of every search call and the number of
  deepening iterations. \<^verbatim>\<open>alphabeta\<close> is called with its default bounds. The clock
  argument \<^verbatim>\<open>time_left\<close> is stored in the player before anything else.
\<close>

definition get_move ::
  "nat \<Rightarrow> ('b, 'p) board_ops \<Rightarrow> ('b, 'p) custom_player \<Rightarrow> 'b \<Rightarrow> move list \<Rightarrow> (nat \<Rightarrow> pyfloat)
   \<Rightarrow> ('b, 'p) trace \<Rightarrow> (move, 'b, 'p) outcome" where
  "get_move fuel G p0 game legal_moves time_left' st =
     (let p = p0\<lparr>time_left := time_left'\<rparr> in
      if legal_moves = [] then Some (Inr no_move, st)
      else
        let best_move = hd legal_moves in
        if method_name p = ''minimax'' then
          try_search fuel p (minimax fuel G p) game best_move st
        else if method_name p = ''alphabeta'' then
          try_search fuel p (\<lambda>g d m. alphabeta fuel G p g d NegInf PosInf m) game best_move st
        else Some (Inl ValueError, st))"

section \<open>What a run does to the clock and to the evaluator\<close>

text \<open>The test of the cancellation check on the \<open>k\<close>-th reading of the clock.\<close>

definition below_threshold :: "('b, 'p) custom_player \<Rightarrow> nat \<Rightarrow> bool" where
  "below_threshold p k = (time_left p k < TIMER_THRESHOLD p)"

text \<open>
  A run from trace \<open>st\<close> to trace \<open>st'\<close> with outcome \<open>r\<close> respects the clock when: if it
  raised, it raised \<^verbatim>\<open>Timeout\<close>, its last reading of the clock was below the threshold and
  no earlier one was; if it returned, none of its readings was below the threshold.
\<close>

definition clock_respected ::
  "('b, 'p) custom_player \<Rightarrow> ('b, 'p) trace \<Rightarrow> error + 'a \<Rightarrow> ('b, 'p) trace \<Rightarrow> bool" where
  "clock_respected p st r st' =
     (case r of
        Inl e \<Rightarrow>
          e = Timeout \<and> ticks st < ticks st' \<and>
          (\<forall>k \<in> {ticks st..<ticks st' - 1}. \<not> below_threshold p k) \<and>
          below_threshold p (ticks st' - 1)
      | Inr v \<Rightarrow>
          ticks st \<le> ticks st' \<and> (\<forall>k \<in> {ticks st..<ticks st'}. \<not> below_threshold p k))"

text \<open>
  The evaluator calls made between \<open>st\<close> and \<open>st'\<close> (the earlier ones are kept) all have the
  player itself as their second argument.
\<close>

definition evals_by_self ::
  "('b, 'p) custom_player \<Rightarrow> ('b, 'p) trace \<Rightarrow> ('b, 'p) trace \<Rightarrow> bool" where
  "evals_by_self p st st' =
     (take (length (evals st)) (evals st') = evals st \<and>
      (\<forall>e \<in> set (drop (length (evals st)) (evals st')). snd e = self p))"

definition run_ok ::
  "('b, 'p) custom_player \<Rightarrow> ('b, 'p) trace \<Rightarrow> error + 'a \<Rightarrow> ('b, 'p) trace \<Rightarrow> bool" where
  "run_ok p st r st' = (clock_respected p st r st' \<and> evals_by_self p st st')"

section \<open>The parameter sweep of \<^verbatim>\<open>heuristic_search.py\<close>\<close>

text \<open>
  The script's effects are what it prints and the file it writes. \<open>stdout\<close> is the text
  printed so far, \<open>files\<close> maps a path to the text of the file there, and \<open>writable\<close> tells
  whether \<^verbatim>\<open>open(path, 'w')\<close> succeeds.
\<close>

record world =
  stdout :: string
  files :: "string \<Rightarrow> string option"
  writable :: "string \<Rightarrow> bool"

datatype script_error = OSError | RoundFailed

text \<open>
  What the script takes from outside the sources: \<open>now k\<close> is the text of the \<open>k\<close>-th
  \<^verbatim>\<open>datetime.now()\<close>, \<open>str_float\<close> is \<^verbatim>\<open>str\<close> on floats, and \<open>play_round a\<close> stands for
  \<^verbatim>\<open>play_round_2(ab_agents + [agentUT], MATCHES)\<close> for the agent built from the coefficient
  \<open>a\<close>: the matches themselves are played by the tournament module, which is not part of the
  sources, so the win percentage (or the failure) of each round is given.
\<close>

record env =
  now :: "nat \<Rightarrow> string"
  str_float :: "pyfloat \<Rightarrow> string"
  play_round :: "pyfloat \<Rightarrow> script_error + pyfloat"

definition print_line :: "string \<Rightarrow> world \<Rightarrow> world" where
  "print_line text w = w\<lparr>stdout := stdout w @ text @ [CHR 0x0A]\<rparr>"

definition print_to_file :: "string \<Rightarrow> string \<Rightarrow> world \<Rightarrow> world" where
  "print_to_file path text w =
     w\<lparr>files := (files w)(path \<mapsto> (case files w path of None \<Rightarrow> [] | Some old \<Rightarrow> old)
                                    @ text @ [CHR 0x0A])\<rparr>"

text \<open>\<^verbatim>\<open>alphas = [x * 0.01 for x in range(0, 120, 20)]\<close>\<close>

definition alphas :: "pyfloat list" where
  "alphas = map (\<lambda>x. Fin (of_int x * (1 / 100))) [0, 20, 40, 60, 80, 100]"

text \<open>The loop \<^verbatim>\<open>for agentUT in test_agents\<close>; the agent of coefficient \<open>a\<close> is named
  \<^verbatim>\<open>"Alpha" + str(a)\<close>.\<close>

fun run_rounds ::
  "env \<Rightarrow> pyfloat list \<Rightarrow> pyfloat list \<Rightarrow> world \<Rightarrow> (script_error + pyfloat list) \<times> world" where
  "run_rounds E [] results w = (Inr results, w)"
| "run_rounds E (a # rest) results w =
     (let w1 = print_line (''Alpha'' @ str_float E a) w in
      case play_round E a of
        Inl e \<Rightarrow> (Inl e, w1)
      | Inr r \<Rightarrow> run_rounds E rest (results @ [r]) w1)"

text \<open>\<^verbatim>\<open>[str(alphas[i]) + '\t' + str(results[i]) for i in range(len(alphas))]\<close>\<close>

definition result_lines :: "env \<Rightarrow> pyfloat list \<Rightarrow> pyfloat list \<Rightarrow> string list" where
  "result_lines E as results =
     map (\<lambda>i. str_float E (as ! i) @ [CHR 0x09] @ str_float E (results ! i)) [0..<length as]"

text \<open>
  \<^verbatim>\<open>main(filename=None)\<close>. \<^verbatim>\<open>if filename:\<close> is false for \<^verbatim>\<open>None\<close> and for the empty string.
  Opening the file for writing empties it.
\<close>

definition main :: "env \<Rightarrow> string option \<Rightarrow> world \<Rightarrow> (script_error + unit) \<times> world" where
  "main E filename w =
     (let w1 = print_line (now E 0) w in
      case run_rounds E alphas [] w1 of
        (Inl e, w2) \<Rightarrow> (Inl e, w2)
      | (Inr results, w2) \<Rightarrow>
          let w3 = print_line (now E 1) w2 in
          (case filename of
             None \<Rightarrow> (Inr (), w3)
           | Some path \<Rightarrow>
               if path = [] then (Inr (), w3)
               else if \<not> writable w3 path then (Inl OSError, w3)
               else
                 (Inr (), foldl (\<lambda>w' line. print_to_file path line w')
                            (w3\<lparr>files := (files w3)(path \<mapsto> [])\<rparr>)
                            (result_lines E alphas results))))"

text \<open>The script body: \<^verbatim>\<open>sys.argv[1]\<close> if there is one, else \<^verbatim>\<open>main()\<close>.\<close>

definition script :: "env \<Rightarrow> string list \<Rightarrow> world \<Rightarrow> (script_error + unit) \<times> world" where
  "script E argv w =
     (case argv of
        _ # filename # _ \<Rightarrow> main E (Some filename) w
      | _ \<Rightarrow> main E None w)"

section \<open>A small game for concrete instances\<close>

text \<open>
  Boards are numbered. Board 0 has the moves (0,0) and (0,1), leading to boards 1 and 2;
  board 1 has the moves (1,0) and (1,1), leading to boards 3 and 4; board 2 has the move
  (1,0), leading to board 5; boards 3, 4 and 5 have no moves. The player handles are the
  booleans, \<open>True\<close> being the agent.
\<close>

definition toy_moves :: "nat \<Rightarrow> move list" where
  "toy_moves b =
     (if b = 0 then [(0, 0), (0, 1)]
      else if b = 1 then [(1, 0), (1, 1)]
      else if b = 2 then [(1, 0)]
      else [])"

definition toy_next :: "nat \<Rightarrow> move \<Rightarrow> nat" where
  "toy_next b m =
     (if b = 0 then (if m = (0, 0) then 1 else 2)
      else if b = 1 then (if m = (1, 0) then 3 else 4)
      else 5)"

definition toy_board :: "(nat, bool) board_ops" where
  "toy_board =
     \<lparr>get_legal_moves = (\<lambda>b q. toy_moves b), forecast_move = toy_next,
      is_loser = (\<lambda>b q. False), is_winner = (\<lambda>b q. False), get_opponent = (\<lambda>b q. \<not> q)\<rparr>"

definition toy_score :: "nat \<Rightarrow> bool \<Rightarrow> pyfloat" where
  "toy_score b q =
     (if \<not> q then Fin 9
      else if b = 1 \<or> b = 2 then Fin 2
      else if b = 3 \<or> b = 5 then Fin 3
      else if b = 4 then Fin 1
      else Fin 0)"

text \<open>The clock of the examples: 100 ms for the first \<open>n\<close> readings, 0 ms from then on.\<close>

definition toy_clock :: "nat \<Rightarrow> nat \<Rightarrow> pyfloat" where
  "toy_clock n k = (if k < n then Fin 100 else Fin 0)"

definition toy_player :: "string \<Rightarrow> bool \<Rightarrow> int \<Rightarrow> nat \<Rightarrow> (nat, bool) custom_player" where
  "toy_player m it d n =
     \<lparr>self = True, search_depth = d, iterative = it, score = toy_score, method_name = m,
      time_left = toy_clock n, TIMER_THRESHOLD = Fin 10\<rparr>"

definition start :: "(nat, bool) trace" where
  "start = \<lparr>ticks = 0, evals = []\<rparr>"

text \<open>
  A second small game. Board 0 has the moves (0,0) and (0,1), leading to boards 1 and 2;
  board 2 has the moves (1,0) and (1,1), leading to boards 3 and 4; boards 1, 3 and 4 have
  no moves. The evaluator gives 3 on board 1, 4 on board 3 and 2 on board 4.
\<close>

definition fork_moves :: "nat \<Rightarrow> move list" where
  "fork_moves b =
     (if b = 0 then [(0, 0), (0, 1)]
      else if b = 2 then [(1, 0), (1, 1)]
      else [])"

definition fork_next :: "nat \<Rightarrow> move \<Rightarrow> nat" where
  "fork_next b m =
     (if b = 0 then (if m = (0, 0) then 1 else 2)
      else (if m = (1, 0) then 3 else 4))"

definition fork_board :: "(nat, bool) board_ops" where
  "fork_board =
     \<lparr>get_legal_moves = (\<lambda>b q. fork_moves b), forecast_move = fork_next,
      is_loser = (\<lambda>b q. False), is_winner = (\<lambda>b q. False), get_opponent = (\<lambda>b q. \<not> q)\<rparr>"

definition fork_score :: "nat \<Rightarrow> bool \<Rightarrow> pyfloat" where
  "fork_score b q =
     (if b = 1 then Fin 3 else if b = 3 then Fin 4 else if b = 4 then Fin 2 else Fin 0)"

definition fork_player :: "(nat, bool) custom_player" where
  "fork_player = (toy_player ''alphabeta'' False 2 9)\<lparr>score := fork_score\<rparr>"

text \<open>The player of the small game with an evaluator that returns 3 everywhere.\<close>

definition flat_player :: "(nat, bool) custom_player" where
  "flat_player = (toy_player ''minimax'' False 2 9)\<lparr>score := (\<lambda>b q. Fin 3)\<rparr>"

text \<open>A board where the agent has five legal moves and the opponent two, nobody having
  won or lost.\<close>

definition count_board :: "(unit, bool) board_ops" where
  "count_board =
     \<lparr>get_legal_moves =
        (\<lambda>b q. if q = Some False then [(0, 0), (0, 1)]
               else [(1, 0), (1, 1), (1, 2), (1, 3), (1, 4)]),
      forecast_move = (\<lambda>b m. b),
      is_loser = (\<lambda>b q. False), is_winner = (\<lambda>b q. False), get_opponent = (\<lambda>b q. \<not> q)\<rparr>"

text \<open>An environment for the script: fixed timestamps, a table for \<^verbatim>\<open>str\<close>, and rounds
  that are won half of the time.\<close>

definition toy_str :: "pyfloat \<Rightarrow> string" where
  "toy_str x =
     (if x = Fin 0 then ''0.0'' else if x = Fin (1 / 5) then ''0.2''
      else if x = Fin (2 / 5) then ''0.4'' else if x = Fin (3 / 5) then ''0.6''
      else if x = Fin (4 / 5) then ''0.8'' else if x = Fin 1 then ''1.0''
      else if x = Fin 50 then ''50.0'' else ''?'')"

definition toy_env :: env where
  "toy_env = \<lparr>now = (\<lambda>k. if k = 0 then ''t0'' else ''t1''), str_float = toy_str,
              play_round = (\<lambda>a. Inr (Fin 50))\<rparr>"

definition toy_world :: world where
  "toy_world = \<lparr>stdout = [], files = (\<lambda>path. None), writable = (\<lambda>path. True)\<rparr>"

section \<open>Basic facts\<close>

lemma pyfloat_le_simps [simp]:
  "NegInf \<le> x" "x \<le> PosInf" "Fin a \<le> Fin b \<longleftrightarrow> a \<le> b"
  "\<not> PosInf \<le> Fin a" "\<not> PosInf \<le> NegInf" "\<not> Fin a \<le> NegInf"
  by (cases x; simp add: less_eq_pyfloat_def)+

lemma pyfloat_less_simps [simp]:
  "Fin a < Fin b \<longleftrightarrow> a < b" "NegInf < Fin a" "Fin a < PosInf" "NegInf < PosInf"
  "\<not> x < NegInf" "\<not> PosInf < x"
  by (cases x; auto simp add: less_pyfloat_def less_eq_pyfloat_def)+

lemma foldl_max_Max:
  "foldl (\<lambda>best y. if y > best then y else best) x xs = Max (set (x # xs))"
proof (induction xs arbitrary: x)
  case Nil
  show ?case by simp
next
  case (Cons y ys)
  have "Max (set (x # y # ys)) = Max (set (max x y # ys))"
    by (cases "ys = []") (simp_all add: max.assoc)
  moreover have "(if y > x then y else x) = max x y"
    by (auto simp add: max_def)
  ultimately show ?case
    using Cons.IH [of "max x y"] by simp
qed

lemma foldl_min_Min:
  "foldl (\<lambda>best y. if y < best then y else best) x xs = Min (set (x # xs))"
proof (induction xs arbitrary: x)
  case Nil
  show ?case by simp
next
  case (Cons y ys)
  have "Min (set (x # y # ys)) = Min (set (min x y # ys))"
    by (cases "ys = []") (simp_all add: min.assoc)
  moreover have "(if y < x then y else x) = min x y"
    by (auto simp add: min_def)
  ultimately show ?case
    using Cons.IH [of "min x y"] by simp
qed

lemma py_max_Cons: "py_max (x # xs) = Inr (Max (set (x # xs)))"
  by (simp add: py_max_def foldl_max_Max del: foldl_Cons)

lemma py_min_Cons: "py_min (x # xs) = Inr (Min (set (x # xs)))"
  by (simp add: py_min_def foldl_min_Min del: foldl_Cons)

lemma score_children_eq:
  "score_children G p game ms st =
     (map (\<lambda>m. (score p (forecast_move G game m) (self p), m)) ms,
      st\<lparr>evals := evals st @ map (\<lambda>m. (forecast_move G game m, self p)) ms\<rparr>)"
  by (induction ms arbitrary: st) (simp_all add: call_score_def)

lemma minimax_children_moves:
  "minimax_children fuel G p game depth maxi ms st = Some (Inr children, st')
   \<Longrightarrow> map snd children = ms"
proof (induction ms arbitrary: st children)
  case Nil
  then show ?case by simp
next
  case (Cons m ms)
  then show ?case
    by (auto split: option.splits sum.splits prod.splits)
qed

section \<open>The bounds of alpha-beta\<close>

text \<open>
  Runs of \<^verbatim>\<open>alphabeta\<close> on the second small game, entered with an alpha of 5: the first
  child of the root, the second child under the alpha 3 and under the alpha 5, and the root.
\<close>

lemma fork_runs:
  "alphabeta 2 fork_board fork_player (forecast_move fork_board 0 (0, 0)) (2 - 1) (Fin 5) PosInf
     (\<not> True) \<lparr>ticks = 1, evals = []\<rparr>
     = Some (Inr (Fin 3, no_move), \<lparr>ticks = 2, evals = [(1, True)]\<rparr>)"
  "alphabeta 2 fork_board fork_player (forecast_move fork_board 0 (0, 1)) (2 - 1) (Fin 3) PosInf
     (\<not> True) \<lparr>ticks = 2, evals = [(1, True)]\<rparr>
     = Some (Inr (Fin 2, (1, 1)), \<lparr>ticks = 5, evals = [(1, True), (3, True), (4, True)]\<rparr>)"
  "alphabeta 2 fork_board fork_player (forecast_move fork_board 0 (0, 1)) (2 - 1) (Fin 5) PosInf
     (\<not> True) \<lparr>ticks = 2, evals = [(1, True)]\<rparr>
     = Some (Inr (Fin 4, (1, 0)), \<lparr>ticks = 4, evals = [(1, True), (3, True)]\<rparr>)"
  "alphabeta 3 fork_board fork_player 0 2 (Fin 5) PosInf True start
     = Some (Inr (Fin 3, (0, 0)), \<lparr>ticks = 5, evals = [(1, True), (3, True), (4, True)]\<rparr>)"
  by (simp_all add: fork_board_def fork_player_def fork_moves_def fork_next_def fork_score_def
      toy_player_def toy_clock_def start_def read_clock_def call_score_def prune_def
      update_limit_def eval_nat_numeral)

text \<open>
  C1. \<^verbatim>\<open>__update_limit__\<close> returns the pair in which exactly one bound is the new score and
  the other bound is the old one, whatever the old bounds are: on a maximizing layer alpha
  becomes the score, on a minimizing layer beta becomes the score. In the loop of
  \<^verbatim>\<open>alphabeta\<close>, when the score of the child for \<open>move\<close> is strictly better than
  \<^verbatim>\<open>best_score\<close> and \<^verbatim>\<open>__prune__\<close> is false, the child for the next move \<open>m2\<close> is searched under
  exactly these bounds, and what that search does decides what the loop does: its
  exception leaves the loop; its score, when strictly better again, ends the loop if
  \<^verbatim>\<open>__prune__\<close> holds under these bounds and otherwise replaces the same bound once more;
  when not better, the loop goes on under these bounds with the score and move of the
  first child. Finally \<^verbatim>\<open>alphabeta\<close>, on a board with moves and at a depth other than 0,
  is this loop over the legal moves, started with the bounds it was given.

  In the instance the root is a maximizing layer entered with alpha = 5. Its first child
  scores 3, so alpha becomes 3, which a merge by \<^verbatim>\<open>max\<close> would not do. The second child,
  searched with alpha = 3, evaluates both its children and returns 2, and the root returns
  the first move with score 3; searched with alpha = 5 it would stop after its first child
  and return 4.
\<close>

theorem alphabeta_bound_overwrite:
  "update_limit old_alpha old_beta s True = (s, old_beta) \<and>
   update_limit old_alpha old_beta s False = (old_alpha, s) \<and>
   (alphabeta fuel G p (forecast_move G game move) (depth - 1) alpha beta (\<not> maxi) st
      = Some (Inr (s', mv), st1) \<and>
    ((maxi \<and> s' > best_score) \<or> (\<not> maxi \<and> s' < best_score)) \<and>
    \<not> prune alpha beta s' maxi \<and>
    alphabeta fuel G p (forecast_move G game m2) (depth - 1)
      (if maxi then s' else alpha) (if maxi then beta else s') (\<not> maxi) st1 = Some (r2, st2)
    \<longrightarrow>
    alphabeta_loop fuel G p game depth maxi (move # m2 # rest) alpha beta best_score best_move st
      = (case r2 of
           Inl e \<Rightarrow> Some (Inl e, st2)
         | Inr v \<Rightarrow>
             if (maxi \<and> fst v > s') \<or> (\<not> maxi \<and> fst v < s') then
               if prune (if maxi then s' else alpha) (if maxi then beta else s') (fst v) maxi
               then Some (Inr (fst v, m2), st2)
               else alphabeta_loop fuel G p game depth maxi rest
                      (if maxi then fst v else alpha) (if maxi then beta else fst v)
                      (fst v) m2 st2
             else alphabeta_loop fuel G p game depth maxi rest
                    (if maxi then s' else alpha) (if maxi then beta else s') s' move st2)) \<and>
   (\<not> below_threshold p (ticks st) \<and> depth \<noteq> 0 \<and> get_legal_moves G game None \<noteq> [] \<longrightarrow>
    alphabeta (Suc fuel) G p game depth alpha beta maxi st
      = alphabeta_loop fuel G p game depth maxi (get_legal_moves G game None) alpha beta
          (if maxi then NegInf else PosInf) (hd (get_legal_moves G game None))
          (st\<lparr>ticks := Suc (ticks st)\<rparr>))"
proof (intro conjI impI)
  show "update_limit old_alpha old_beta s True = (s, old_beta)"
    by (simp add: update_limit_def)
  show "update_limit old_alpha old_beta s False = (old_alpha, s)"
    by (simp add: update_limit_def)
next
  assume h: "alphabeta fuel G p (forecast_move G game move) (depth - 1) alpha beta (\<not> maxi) st
      = Some (Inr (s', mv), st1) \<and>
    ((maxi \<and> s' > best_score) \<or> (\<not> maxi \<and> s' < best_score)) \<and>
    \<not> prune alpha beta s' maxi \<and>
    alphabeta fuel G p (forecast_move G game m2) (depth - 1)
      (if maxi then s' else alpha) (if maxi then beta else s') (\<not> maxi) st1 = Some (r2, st2)"
  then show "alphabeta_loop fuel G p game depth maxi (move # m2 # rest) alpha beta best_score
        best_move st
      = (case r2 of
           Inl e \<Rightarrow> Some (Inl e, st2)
         | Inr v \<Rightarrow>
             if (maxi \<and> fst v > s') \<or> (\<not> maxi \<and> fst v < s') then
               if prune (if maxi then s' else alpha) (if maxi then beta else s') (fst v) maxi
               then Some (Inr (fst v, m2), st2)
               else alphabeta_loop fuel G p game depth maxi rest
                      (if maxi then fst v else alpha) (if maxi then beta else fst v)
                      (fst v) m2 st2
             else alphabeta_loop fuel G p game depth maxi rest
                    (if maxi then s' else alpha) (if maxi then beta else s') s' move st2)"
    by (cases maxi; cases r2) (simp_all add: update_limit_def Let_def)
next
  assume "\<not> below_threshold p (ticks st) \<and> depth \<noteq> 0 \<and> get_legal_moves G game None \<noteq> []"
  then show "alphabeta (Suc fuel) G p game depth alpha beta maxi st
      = alphabeta_loop fuel G p game depth maxi (get_legal_moves G game None) alpha beta
          (if maxi then NegInf else PosInf) (hd (get_legal_moves G game None))
          (st\<lparr>ticks := Suc (ticks st)\<rparr>)"
    by (simp add: below_threshold_def read_clock_def Let_def)
qed

theorem alphabeta_bound_overwrite_witness:
  "alphabeta 2 fork_board fork_player (forecast_move fork_board 0 (0, 0)) (2 - 1) (Fin 5) PosInf
     (\<not> True) \<lparr>ticks = 1, evals = []\<rparr>
     = Some (Inr (Fin 3, no_move), \<lparr>ticks = 2, evals = [(1, True)]\<rparr>) \<and>
   Fin 3 > NegInf \<and> Fin 3 < Fin 5 \<and> \<not> prune (Fin 5) PosInf (Fin 3) True \<and>
   alphabeta 2 fork_board fork_player (forecast_move fork_board 0 (0, 1)) (2 - 1) (Fin 3) PosInf
     (\<not> True) \<lparr>ticks = 2, evals = [(1, True)]\<rparr>
     = Some (Inr (Fin 2, (1, 1)), \<lparr>ticks = 5, evals = [(1, True), (3, True), (4, True)]\<rparr>) \<and>
   alphabeta 2 fork_board fork_player (forecast_move fork_board 0 (0, 1)) (2 - 1) (Fin 5) PosInf
     (\<not> True) \<lparr>ticks = 2, evals = [(1, True)]\<rparr>
     = Some (Inr (Fin 4, (1, 0)), \<lparr>ticks = 4, evals = [(1, True), (3, True)]\<rparr>) \<and>
   alphabeta_loop 2 fork_board fork_player 0 2 True [(0, 0), (0, 1)] (Fin 5) PosInf NegInf (0, 0)
     \<lparr>ticks = 1, evals = []\<rparr>
     = Some (Inr (Fin 3, (0, 0)), \<lparr>ticks = 5, evals = [(1, True), (3, True), (4, True)]\<rparr>) \<and>
   \<not> below_threshold fork_player (ticks start) \<and>
   get_legal_moves fork_board 0 None = [(0, 0), (0, 1)] \<and>
   alphabeta (Suc 2) fork_board fork_player 0 2 (Fin 5) PosInf True start
     = Some (Inr (Fin 3, (0, 0)), \<lparr>ticks = 5, evals = [(1, True), (3, True), (4, True)]\<rparr>)"
proof -
  have side: "Fin 3 > NegInf" "Fin 3 < Fin 5" "\<not> prune (Fin 5) PosInf (Fin 3) True"
    "\<not> below_threshold fork_player (ticks start)"
    "get_legal_moves fork_board 0 None = [(0, 0), (0, 1)]"
    by (simp_all add: prune_def below_threshold_def fork_player_def toy_player_def
        toy_clock_def start_def fork_board_def fork_moves_def)
  from alphabeta_bound_overwrite [where fuel = 2 and G = fork_board and p = fork_player and game = 0
      and move = "(0, 0)" and depth = 2 and alpha = "Fin 5" and beta = PosInf and maxi = True
      and st = "\<lparr>ticks = 1, evals = []\<rparr>" and s' = "Fin 3" and mv = no_move
      and ?st1.0 = "\<lparr>ticks = 2, evals = [(1, True)]\<rparr>" and best_score = NegInf
      and ?m2.0 = "(0, 1)" and ?r2.0 = "Inr (Fin 2, (1, 1))"
      and ?st2.0 = "\<lparr>ticks = 5, evals = [(1, True), (3, True), (4, True)]\<rparr>"
      and rest = "[]" and best_move = "(0, 0)"]
    fork_runs(1,2) side(1,3)
  have loop: "alphabeta_loop 2 fork_board fork_player 0 2 True [(0, 0), (0, 1)] (Fin 5) PosInf
      NegInf (0, 0) \<lparr>ticks = 1, evals = []\<rparr>
      = Some (Inr (Fin 3, (0, 0)), \<lparr>ticks = 5, evals = [(1, True), (3, True), (4, True)]\<rparr>)"
    by simp
  from loop side fork_runs show ?thesis
    by (simp add: eval_nat_numeral)
qed

section \<open>The driver on a board without moves\<close>

text \<open>
  C8. Called with an empty list of legal moves, \<^verbatim>\<open>get_move\<close> returns \<^verbatim>\<open>(-1, -1)\<close> at once,
  whatever the player's configuration (also with an unsupported method name) and for every
  bound on the search: the trace is returned as it was, so the clock was not read (every
  search call starts by reading it) and the evaluator was not called.
\<close>

theorem get_move_no_legal_moves:
  "get_move fuel G p game [] time_left' st = Some (Inr (-1, -1), st)"
  by (simp add: get_move_def no_move_def)

theorem get_move_no_legal_moves_witness:
  "get_move 0 toy_board (toy_player ''negascout'' True 3 0) 0 [] (toy_clock 0) start
     = Some (Inr (-1, -1), \<lparr>ticks = 0, evals = []\<rparr>)"
  using get_move_no_legal_moves [of 0 toy_board "toy_player ''negascout'' True 3 0" 0
      "toy_clock 0" start]
  by (simp add: start_def)

section \<open>The evaluator\<close>

text \<open>Values of the double arithmetic that the evaluator's example needs: the literal
  \<^verbatim>\<open>4.31\<close>, and \<^verbatim>\<open>0.77 * 5 + 0.23 * 2\<close>, which is the next double above it (Python prints it
  as \<^verbatim>\<open>4.3100000000000005\<close>).\<close>

lemma double_431: "round_double (431 / 100) = 4852628598491709 / 1125899906842624"
  by code_simp

lemma double_score_5_2:
  "float_add (float_mul (round_double (77 / 100)) (float_of_nat 5))
             (float_mul (round_double (23 / 100)) (float_of_nat 2))
     = 2426314299245855 / 562949953421312"
  by code_simp

lemma custom_score_5_2:
  "\<not> is_loser G game player \<Longrightarrow> \<not> is_winner G game player
   \<Longrightarrow> length (get_legal_moves G game (Some player)) = 5
   \<Longrightarrow> length (get_legal_moves G game (Some (get_opponent G game player))) = 2
   \<Longrightarrow> custom_score G game player = Fin (2426314299245855 / 562949953421312)"
  by (simp add: custom_score_def Let_def double_score_5_2)

text \<open>
  C9, as the claim states it, at a board where nobody has won or lost, the player has 5
  legal moves and the opponent 2: \<^verbatim>\<open>custom_score\<close> does not return the float \<^verbatim>\<open>4.31\<close> there
  (nor the rational 431/100, which is no double) but the double above it.
\<close>

theorem custom_score_example_counterexample:
  "\<not> is_loser count_board () True \<and> \<not> is_winner count_board () True \<and>
   length (get_legal_moves count_board () (Some True)) = 5 \<and>
   length (get_legal_moves count_board () (Some (get_opponent count_board () True))) = 2 \<and>
   custom_score count_board () True = Fin (2426314299245855 / 562949953421312) \<and>
   round_double (431 / 100) = 4852628598491709 / 1125899906842624 \<and>
   custom_score count_board () True \<noteq> Fin (round_double (431 / 100)) \<and>
   custom_score count_board () True \<noteq> Fin (431 / 100)"
proof -
  have b: "\<not> is_loser count_board () True" "\<not> is_winner count_board () True"
    "length (get_legal_moves count_board () (Some True)) = 5"
    "length (get_legal_moves count_board () (Some (get_opponent count_board () True))) = 2"
    by (simp_all add: count_board_def)
  then have "custom_score count_board () True = Fin (2426314299245855 / 562949953421312)"
    by (rule custom_score_5_2)
  with b show ?thesis
    by (simp add: double_431)
qed

text \<open>
  C9, amended. \<^verbatim>\<open>custom_score\<close> (the evaluator \<^verbatim>\<open>moves_combined\<close> at the coefficient 0.77)
  returns \<open>-\<infinity>\<close> when the perspective player has lost, \<open>+\<infinity>\<close> when it has won (and not lost),
  and otherwise the double-precision value of 0.77 times the number of its legal moves
  plus 0.23 times the number of the opponent's legal moves, the two literals, the two
  products and the sum each rounded to the nearest double. With 5 and 2 legal moves that
  is the double 2426314299245855 / 2^49 (\<^verbatim>\<open>4.3100000000000005\<close>), less than \<open>1 / 10 ^ 15\<close> away from
  431/100.
\<close>

theorem custom_score_cases:
  "(is_loser G game player \<longrightarrow> custom_score G game player = NegInf) \<and>
   (\<not> is_loser G game player \<longrightarrow> is_winner G game player \<longrightarrow>
      custom_score G game player = PosInf) \<and>
   (\<not> is_loser G game player \<longrightarrow> \<not> is_winner G game player \<longrightarrow>
      custom_score G game player =
        Fin (float_add
               (float_mul (round_double (77 / 100))
                  (float_of_nat (length (get_legal_moves G game (Some player)))))
               (float_mul (round_double (23 / 100))
                  (float_of_nat (length (get_legal_moves G game
                                           (Some (get_opponent G game player)))))))) \<and>
   (\<not> is_loser G game player \<longrightarrow> \<not> is_winner G game player \<longrightarrow>
      length (get_legal_moves G game (Some player)) = 5 \<longrightarrow>
      length (get_legal_moves G game (Some (get_opponent G game player))) = 2 \<longrightarrow>
      custom_score G game player = Fin (2426314299245855 / 2 ^ 49) \<and>
      \<bar>2426314299245855 / 2 ^ 49 - 431 / 100\<bar> < (1 / 10 ^ 15 :: rat))"
  by (simp add: custom_score_def Let_def double_score_5_2)

theorem custom_score_cases_witness:
  "\<not> is_loser count_board () True \<and> \<not> is_winner count_board () True \<and>
   length (get_legal_moves count_board () (Some True)) = 5 \<and>
   length (get_legal_moves count_board () (Some (get_opponent count_board () True))) = 2 \<and>
   custom_score count_board () True = Fin (2426314299245855 / 2 ^ 49)"
proof -
  have b: "\<not> is_loser count_board () True" "\<not> is_winner count_board () True"
    "length (get_legal_moves count_board () (Some True)) = 5"
    "length (get_legal_moves count_board () (Some (get_opponent count_board () True))) = 2"
    by (simp_all add: count_board_def)
  with custom_score_cases [of count_board "()" True]
  have "custom_score count_board () True = Fin (2426314299245855 / 2 ^ 49)"
    by (simp add: double_score_5_2)
  with b show ?thesis by simp
qed

section \<open>Facts about the two searches\<close>

text \<open>
  The move returned by the loop of \<^verbatim>\<open>alphabeta\<close> is the initial \<^verbatim>\<open>best_move\<close> or one of the
  moves iterated over; with enough fuel both searches return or raise; \<^verbatim>\<open>minimax\<close> on a
  board with moves returns the maximum or minimum of its list of children.
\<close>

lemma alphabeta_loop_move:
  "alphabeta_loop fuel G p game depth maxi ms alpha beta bs bm st = Some (Inr (s, m), st')
   \<Longrightarrow> m = bm \<or> m \<in> set ms"
proof (induction ms arbitrary: alpha beta bs bm st maxi)
  case Nil
  then show ?case by simp
next
  case (Cons mv rest)
  from Cons.prems show ?case
    by (auto simp add: Let_def update_limit_def
        split: option.splits sum.splits prod.splits if_splits dest: Cons.IH)
qed

lemma minimax_children_total:
  assumes "\<And>g mx st. \<exists>r. minimax fuel G p g (depth - 1) mx st = Some r"
  shows "\<exists>r. minimax_children fuel G p game depth maxi ms st = Some r"
proof (induction ms arbitrary: st)
  case Nil
  show ?case by simp
next
  case (Cons m ms)
  obtain r st1 where c: "minimax fuel G p (forecast_move G game m) (depth - 1) (\<not> maxi) st
      = Some (r, st1)"
    using assms [of "forecast_move G game m" "\<not> maxi" st] by auto
  obtain r2 st2 where l: "minimax_children fuel G p game depth maxi ms st1 = Some (r2, st2)"
    using Cons.IH [of st1] by auto
  show ?case
    using c l by (cases r; cases r2) simp_all
qed

lemma minimax_total:
  "1 \<le> depth \<Longrightarrow> nat depth \<le> fuel \<Longrightarrow> \<exists>r. minimax fuel G p game depth maxi st = Some r"
proof (induction fuel arbitrary: game depth maxi st)
  case 0
  then show ?case by simp
next
  case (Suc fuel)
  show ?case
  proof (cases "depth = 1")
    case True
    then show ?thesis
      by (simp add: Let_def split: prod.splits sum.splits)
  next
    case False
    with Suc.prems have d: "1 \<le> depth - 1" "nat (depth - 1) \<le> fuel"
      by simp_all
    have ch: "\<exists>r. minimax_children fuel G p game depth maxi ms st1 = Some r" for ms st1
      by (rule minimax_children_total) (rule Suc.IH [OF d])
    obtain r2 st2 where
      "minimax_children fuel G p game depth maxi (get_legal_moves G game None)
         (st\<lparr>ticks := Suc (ticks st)\<rparr>) = Some (r2, st2)"
      using ch by fastforce
    with False show ?thesis
      by (cases r2) (simp_all add: Let_def read_clock_def call_score_def)
  qed
qed

lemma alphabeta_loop_total:
  assumes "\<And>g a b mx st. \<exists>r. alphabeta fuel G p g (depth - 1) a b mx st = Some r"
  shows "\<exists>r. alphabeta_loop fuel G p game depth maxi ms alpha beta bs bm st = Some r"
proof (induction ms arbitrary: alpha beta bs bm st maxi)
  case Nil
  show ?case by simp
next
  case (Cons m ms)
  obtain r st1 where c:
    "alphabeta fuel G p (forecast_move G game m) (depth - 1) alpha beta (\<not> maxi) st
       = Some (r, st1)"
    using assms [of "forecast_move G game m" alpha beta "\<not> maxi" st] by auto
  show ?case
  proof (cases r)
    case (Inl e)
    with c show ?thesis by simp
  next
    case (Inr v)
    with c Cons.IH show ?thesis
      by (simp add: Let_def split: prod.splits)
  qed
qed

lemma alphabeta_total:
  "0 \<le> depth \<Longrightarrow> nat depth < fuel
   \<Longrightarrow> \<exists>r. alphabeta fuel G p game depth alpha beta maxi st = Some r"
proof (induction fuel arbitrary: game depth alpha beta maxi st)
  case 0
  then show ?case by simp
next
  case (Suc fuel)
  show ?case
  proof (cases "depth = 0")
    case True
    then show ?thesis
      by (simp add: Let_def split: prod.splits)
  next
    case False
    with Suc.prems have d: "0 \<le> depth - 1" "nat (depth - 1) < fuel"
      by simp_all
    have "\<exists>r. alphabeta_loop fuel G p game depth mx ms a b bs bm st1 = Some r"
      for ms a b bs bm st1 mx
      by (rule alphabeta_loop_total) (rule Suc.IH [OF d])
    then show ?thesis
      by (simp add: Let_def read_clock_def call_score_def)
  qed
qed

lemma minimax_select:
  assumes "minimax (Suc f) G p game depth maxi st = Some (Inr r, st')"
    and "get_legal_moves G game None \<noteq> []"
  shows "\<exists>children.
           (if depth = 1 then
              children = map (\<lambda>m. (score p (forecast_move G game m) (self p), m))
                           (get_legal_moves G game None)
            else minimax_children f G p game depth maxi (get_legal_moves G game None)
                   (st\<lparr>ticks := Suc (ticks st)\<rparr>) = Some (Inr children, st'))
           \<and> map snd children = get_legal_moves G game None
           \<and> r = (if maxi then Max (set children) else Min (set children))"
proof -
  let ?L = "get_legal_moves G game None"
  let ?st1 = "st\<lparr>ticks := Suc (ticks st)\<rparr>"
  from assms have ok: "\<not> time_left p (ticks st) < TIMER_THRESHOLD p"
    by (auto simp add: read_clock_def split: if_splits)
  obtain children where
    ch: "if depth = 1 then
           children = map (\<lambda>m. (score p (forecast_move G game m) (self p), m)) ?L
         else minimax_children f G p game depth maxi ?L ?st1 = Some (Inr children, st')"
    and res: "(if maxi then py_max children else py_min children) = Inr r"
  proof (cases "depth = 1")
    case True
    with assms ok that show ?thesis
      by (simp add: read_clock_def score_children_eq Let_def)
  next
    case False
    with assms ok that show ?thesis
      by (simp add: read_clock_def Let_def split: option.splits sum.splits prod.splits)
  qed
  have mv: "map snd children = ?L"
  proof (cases "depth = 1")
    case True
    with ch show ?thesis by (simp add: comp_def)
  next
    case False
    with ch show ?thesis by (simp add: minimax_children_moves)
  qed
  with assms(2) obtain c cs where cs: "children = c # cs"
    by (cases children) auto
  from res have "r = (if maxi then Max (set children) else Min (set children))"
    unfolding cs by (simp add: py_max_Cons py_min_Cons split: if_splits)
  with ch mv show ?thesis by blast
qed

lemma minimax_move:
  assumes "minimax fuel G p game depth maxi st = Some (Inr (s, m), st')"
  shows "(get_legal_moves G game None = [] \<longrightarrow> m = (-1, -1)) \<and>
         (get_legal_moves G game None \<noteq> [] \<longrightarrow> m \<in> set (get_legal_moves G game None))"
proof (cases fuel)
  case 0
  with assms show ?thesis by simp
next
  case (Suc f)
  show ?thesis
  proof (cases "get_legal_moves G game None = []")
    case True
    with assms Suc show ?thesis
      by (auto simp add: Let_def read_clock_def call_score_def no_move_def split: if_splits)
  next
    case False
    from minimax_select [OF assms [unfolded Suc] False] obtain children where
      mv: "map snd children = get_legal_moves G game None"
      and res: "(s, m) = (if maxi then Max (set children) else Min (set children))"
      by blast
    from mv False have ne: "set children \<noteq> {}" by auto
    have "(s, m) \<in> set children"
      using res Max_in [OF _ ne] Min_in [OF _ ne] by (simp split: if_splits)
    then have "m \<in> snd ` set children" by force
    with mv False show ?thesis
      by (metis set_map)
  qed
qed

lemma alphabeta_move:
  assumes "alphabeta fuel G p game depth alpha beta maxi st = Some (Inr (s, m), st')"
    and "depth \<noteq> 0"
  shows "(get_legal_moves G game None = [] \<longrightarrow> m = (-1, -1)) \<and>
         (get_legal_moves G game None \<noteq> [] \<longrightarrow> m \<in> set (get_legal_moves G game None))"
proof (cases fuel)
  case 0
  with assms show ?thesis by simp
next
  case (Suc f)
  show ?thesis
  proof (cases "get_legal_moves G game None = []")
    case True
    with assms Suc show ?thesis
      by (auto simp add: Let_def read_clock_def call_score_def no_move_def split: if_splits)
  next
    case False
    with assms Suc have
      "\<exists>st1. alphabeta_loop f G p game depth maxi (get_legal_moves G game None) alpha beta
         (if maxi then NegInf else PosInf) (hd (get_legal_moves G game None)) st1
         = Some (Inr (s, m), st')"
      by (auto simp add: Let_def read_clock_def split: if_splits)
    then have "m = hd (get_legal_moves G game None) \<or> m \<in> set (get_legal_moves G game None)"
      by (auto dest: alphabeta_loop_move)
    with False show ?thesis by auto
  qed
qed

lemma minimax_children_scores:
  "minimax_children fuel G p game depth maxi ms st = Some (Inr children, st')
   \<Longrightarrow> i < length ms
   \<Longrightarrow> \<exists>st1 st2 mv. minimax fuel G p (forecast_move G game (ms ! i)) (depth - 1) (\<not> maxi) st1
         = Some (Inr (fst (children ! i), mv), st2)"
proof (induction ms arbitrary: st children i)
  case Nil
  then show ?case by simp
next
  case (Cons m ms)
  from Cons.prems(1) obtain r st1 rest where
    c: "minimax fuel G p (forecast_move G game m) (depth - 1) (\<not> maxi) st = Some (Inr r, st1)"
    and l: "minimax_children fuel G p game depth maxi ms st1 = Some (Inr rest, st')"
    and ch: "children = (fst r, m) # rest"
    by (auto split: option.splits sum.splits prod.splits)
  show ?case
  proof (cases i)
    case 0
    with c ch show ?thesis
      by (cases r) auto
  next
    case (Suc j)
    with Cons.prems(2) have "j < length ms" by simp
    from Cons.IH [OF l this] Suc ch show ?thesis by simp
  qed
qed

section \<open>The base cases of the two searches\<close>

text \<open>
  C2. When the clock does not abort the call: \<^verbatim>\<open>alphabeta\<close> with \<^verbatim>\<open>depth == 0\<close> or without
  legal moves returns \<^verbatim>\<open>(score(board, self), (-1, -1))\<close> after one evaluation of the board
  itself; with a depth other than 0 and with legal moves the move it returns is one of the
  legal moves (so it is not the sentinel, unless the board lists the sentinel as a move).
  \<^verbatim>\<open>minimax\<close> with \<^verbatim>\<open>depth == 1\<close> and legal moves does not evaluate the board itself: it
  evaluates every forecasted child, in the order of the moves, and returns the maximum
  (maximizing) or minimum (minimizing) of the pairs (score of the child, move).
\<close>

theorem search_base_cases:
  assumes "\<not> time_left p (ticks st) < TIMER_THRESHOLD p"
  shows
    "(depth = 0 \<or> get_legal_moves G game None = [] \<longrightarrow>
        alphabeta (Suc fuel) G p game depth alpha beta maxi st
          = Some (Inr (score p game (self p), (-1, -1)),
                  st\<lparr>ticks := Suc (ticks st), evals := evals st @ [(game, self p)]\<rparr>)) \<and>
     (depth \<noteq> 0 \<and> get_legal_moves G game None \<noteq> [] \<longrightarrow>
        (\<forall>s m st'. alphabeta (Suc fuel) G p game depth alpha beta maxi st
                     = Some (Inr (s, m), st')
                   \<longrightarrow> m \<in> set (get_legal_moves G game None))) \<and>
     (get_legal_moves G game None \<noteq> [] \<longrightarrow>
        minimax (Suc fuel) G p game 1 maxi st
          = Some (Inr (if maxi
                       then Max (set (map (\<lambda>m. (score p (forecast_move G game m) (self p), m))
                                      (get_legal_moves G game None)))
                       else Min (set (map (\<lambda>m. (score p (forecast_move G game m) (self p), m))
                                      (get_legal_moves G game None)))),
                  st\<lparr>ticks := Suc (ticks st),
                     evals := evals st @ map (\<lambda>m. (forecast_move G game m, self p))
                                           (get_legal_moves G game None)\<rparr>))"
proof (intro conjI impI allI)
  assume "depth = 0 \<or> get_legal_moves G game None = []"
  with assms show "alphabeta (Suc fuel) G p game depth alpha beta maxi st
      = Some (Inr (score p game (self p), (-1, -1)),
              st\<lparr>ticks := Suc (ticks st), evals := evals st @ [(game, self p)]\<rparr>)"
    by (auto simp add: read_clock_def call_score_def no_move_def)
next
  fix s m st'
  assume "depth \<noteq> 0 \<and> get_legal_moves G game None \<noteq> []"
    and "alphabeta (Suc fuel) G p game depth alpha beta maxi st = Some (Inr (s, m), st')"
  then show "m \<in> set (get_legal_moves G game None)"
    using alphabeta_move [of "Suc fuel" G p game depth alpha beta maxi st s m st'] by simp
next
  let ?L = "get_legal_moves G game None"
  assume ne: "?L \<noteq> []"
  then obtain c cs where cs: "map (\<lambda>m. (score p (forecast_move G game m) (self p), m)) ?L
      = c # cs"
    by (cases ?L) auto
  show "minimax (Suc fuel) G p game 1 maxi st
      = Some (Inr (if maxi
                   then Max (set (map (\<lambda>m. (score p (forecast_move G game m) (self p), m)) ?L))
                   else Min (set (map (\<lambda>m. (score p (forecast_move G game m) (self p), m)) ?L))),
              st\<lparr>ticks := Suc (ticks st),
                 evals := evals st @ map (\<lambda>m. (forecast_move G game m, self p)) ?L\<rparr>)"
    using assms ne
    by (simp add: read_clock_def score_children_eq Let_def cs py_max_Cons py_min_Cons)
qed

theorem search_base_cases_witness:
  "\<not> time_left (toy_player ''alphabeta'' False 1 9) (ticks start)
       < TIMER_THRESHOLD (toy_player ''alphabeta'' False 1 9) \<and>
   get_legal_moves toy_board 0 None = [(0, 0), (0, 1)] \<and>
   alphabeta (Suc 0) toy_board (toy_player ''alphabeta'' False 1 9) 0 0 NegInf PosInf True start
     = Some (Inr (Fin 0, (-1, -1)), \<lparr>ticks = 1, evals = [(0, True)]\<rparr>) \<and>
   minimax (Suc 0) toy_board (toy_player ''alphabeta'' False 1 9) 0 1 True start
     = Some (Inr (Fin 2, (0, 1)), \<lparr>ticks = 1, evals = [(1, True), (2, True)]\<rparr>)"
  using search_base_cases [of "toy_player ''alphabeta'' False 1 9" start 0 toy_board 0 0
      NegInf PosInf True]
  by (simp add: toy_board_def toy_player_def toy_next_def toy_moves_def toy_score_def
      toy_clock_def start_def)

section \<open>The returned move is legal\<close>

text \<open>
  C3. For every depth from 1 on (the depths the driver uses), every board and both values
  of the flag: when \<^verbatim>\<open>minimax\<close> or \<^verbatim>\<open>alphabeta\<close> returns a pair, its move is \<^verbatim>\<open>(-1, -1)\<close> if
  the side to move has no legal moves, and one of the legal moves otherwise. Moreover a
  bound on the nesting above the depth is enough for both to return or raise, so the
  statement is about runs that exist.
\<close>

theorem search_move_legal:
  assumes "1 \<le> depth"
  shows
    "(minimax fuel G p game depth maxi st = Some (Inr (s, m), st') \<longrightarrow>
        (get_legal_moves G game None = [] \<longrightarrow> m = (-1, -1)) \<and>
        (get_legal_moves G game None \<noteq> [] \<longrightarrow> m \<in> set (get_legal_moves G game None))) \<and>
     (alphabeta fuel G p game depth alpha beta maxi st = Some (Inr (s2, m2), st2) \<longrightarrow>
        (get_legal_moves G game None = [] \<longrightarrow> m2 = (-1, -1)) \<and>
        (get_legal_moves G game None \<noteq> [] \<longrightarrow> m2 \<in> set (get_legal_moves G game None))) \<and>
     (nat depth < fuel \<longrightarrow>
        (\<exists>r. minimax fuel G p game depth maxi st = Some r) \<and>
        (\<exists>r. alphabeta fuel G p game depth alpha beta maxi st = Some r))"
proof -
  from assms have d: "depth \<noteq> 0" "0 \<le> depth" by simp_all
  have tot: "nat depth < fuel \<Longrightarrow>
      (\<exists>r. minimax fuel G p game depth maxi st = Some r) \<and>
      (\<exists>r. alphabeta fuel G p game depth alpha beta maxi st = Some r)"
    using minimax_total [OF assms, of fuel G p game maxi st]
      alphabeta_total [OF d(2), of fuel G p game alpha beta maxi st]
    by simp
  show ?thesis
    using minimax_move [of fuel G p game depth maxi st s m st']
      alphabeta_move [of fuel G p game depth alpha beta maxi st s2 m2 st2, OF _ d(1)] tot
    by blast
qed

theorem search_move_legal_witness:
  "(1::int) \<le> 2 \<and>
   minimax 3 toy_board (toy_player ''minimax'' False 2 9) 0 2 True start
     = Some (Inr (Fin 3, (0, 1)), \<lparr>ticks = 3, evals = [(3, True), (4, True), (5, True)]\<rparr>) \<and>
   alphabeta 3 toy_board (toy_player ''minimax'' False 2 9) 0 2 NegInf PosInf True start
     = Some (Inr (Fin 3, (0, 1)), \<lparr>ticks = 6, evals = [(3, True), (4, True), (5, True)]\<rparr>) \<and>
   get_legal_moves toy_board 0 None \<noteq> [] \<and>
   (0, 1) \<in> set (get_legal_moves toy_board 0 None)"
  using search_move_legal [of 2 3 toy_board "toy_player ''minimax'' False 2 9" 0 True start
      "Fin 3" "(0, 1)" "\<lparr>ticks = 3, evals = [(3, True), (4, True), (5, True)]\<rparr>"
      NegInf PosInf "Fin 3" "(0, 1)" "\<lparr>ticks = 6, evals = [(3, True), (4, True), (5, True)]\<rparr>"]
  by (simp add: toy_board_def toy_player_def toy_next_def toy_moves_def toy_score_def
      toy_clock_def start_def read_clock_def call_score_def prune_def update_limit_def
      py_max_def py_min_def no_move_def eval_nat_numeral)

section \<open>Facts about the clock, the trace and the driver\<close>

text \<open>
  Every call of either search reads the clock at least once, respects the clock and passes
  the player itself to the evaluator. The deepening loop never lets \<^verbatim>\<open>Timeout\<close> out, and
  it returns exactly after a chain of completed depths followed by an aborted one.
\<close>

lemma evals_by_self_iff:
  "evals_by_self p st st' \<longleftrightarrow>
     (\<exists>new. evals st' = evals st @ new \<and> (\<forall>e \<in> set new. snd e = self p))"
proof
  assume "evals_by_self p st st'"
  then have "evals st' = evals st @ drop (length (evals st)) (evals st')"
    and "\<forall>e \<in> set (drop (length (evals st)) (evals st')). snd e = self p"
    unfolding evals_by_self_def by (metis append_take_drop_id, blast)
  then show "\<exists>new. evals st' = evals st @ new \<and> (\<forall>e \<in> set new. snd e = self p)"
    by blast
next
  assume "\<exists>new. evals st' = evals st @ new \<and> (\<forall>e \<in> set new. snd e = self p)"
  then show "evals_by_self p st st'"
    unfolding evals_by_self_def by auto
qed

lemma run_ok_refl: "run_ok p st (Inr v) st"
  by (simp add: run_ok_def clock_respected_def evals_by_self_def)

lemma run_ok_abort:
  "below_threshold p (ticks st) \<Longrightarrow> run_ok p st (Inl Timeout) (st\<lparr>ticks := Suc (ticks st)\<rparr>)"
  by (simp add: run_ok_def clock_respected_def evals_by_self_def)

lemma run_ok_trans:
  assumes "run_ok p st (Inr v) st1" and "run_ok p st1 r st2"
  shows "run_ok p st r st2"
proof -
  from assms have e: "evals_by_self p st st2"
    unfolding run_ok_def evals_by_self_iff by auto
  from assms have c1: "ticks st \<le> ticks st1"
    "\<forall>k \<in> {ticks st..<ticks st1}. \<not> below_threshold p k"
    by (simp_all add: run_ok_def clock_respected_def)
  have "clock_respected p st r st2"
  proof (cases r)
    case (Inl e)
    with assms(2) have c2: "e = Timeout" "ticks st1 < ticks st2"
      "\<forall>k \<in> {ticks st1..<ticks st2 - 1}. \<not> below_threshold p k"
      "below_threshold p (ticks st2 - 1)"
      by (simp_all add: run_ok_def clock_respected_def)
    have "\<forall>k \<in> {ticks st..<ticks st2 - 1}. \<not> below_threshold p k"
    proof
      fix k assume k: "k \<in> {ticks st..<ticks st2 - 1}"
      show "\<not> below_threshold p k"
      proof (cases "k < ticks st1")
        case True with k c1 show ?thesis by simp
      next
        case False with k c2 show ?thesis by simp
      qed
    qed
    with c1 c2 Inl show ?thesis
      by (simp add: clock_respected_def)
  next
    case (Inr w)
    with assms(2) have c2: "ticks st1 \<le> ticks st2"
      "\<forall>k \<in> {ticks st1..<ticks st2}. \<not> below_threshold p k"
      by (simp_all add: run_ok_def clock_respected_def)
    have "\<forall>k \<in> {ticks st..<ticks st2}. \<not> below_threshold p k"
    proof
      fix k assume k: "k \<in> {ticks st..<ticks st2}"
      show "\<not> below_threshold p k"
      proof (cases "k < ticks st1")
        case True with k c1 show ?thesis by simp
      next
        case False with k c2 show ?thesis by simp
      qed
    qed
    with c1 c2 Inr show ?thesis
      by (simp add: clock_respected_def)
  qed
  with e show ?thesis by (simp add: run_ok_def)
qed

lemma run_ok_tick:
  "\<not> below_threshold p (ticks st) \<Longrightarrow> run_ok p st (Inr ()) (st\<lparr>ticks := Suc (ticks st)\<rparr>)"
  by (auto simp add: run_ok_def clock_respected_def evals_by_self_def less_Suc_eq)

lemma run_ok_evals:
  "\<forall>e \<in> set new. snd e = self p \<Longrightarrow> run_ok p st (Inr v) (st\<lparr>evals := evals st @ new\<rparr>)"
  by (simp add: run_ok_def clock_respected_def evals_by_self_def)

lemma run_ok_ticks_le: "run_ok p st r st' \<Longrightarrow> ticks st \<le> ticks st'"
  by (cases r) (simp_all add: run_ok_def clock_respected_def)

lemma run_ok_value: "run_ok p st (Inr v) st' \<Longrightarrow> \<not> isl r \<Longrightarrow> run_ok p st r st'"
  by (cases r) (simp_all add: run_ok_def clock_respected_def)

lemma run_ok_error: "run_ok p st (Inl e) st' \<Longrightarrow> run_ok p st (Inl e) st'"
  by (simp add: run_ok_def clock_respected_def)

lemma minimax_children_run_ok:
  assumes "\<And>g mx st r st'. minimax fuel G p g (depth - 1) mx st = Some (r, st')
             \<Longrightarrow> run_ok p st r st'"
  shows "minimax_children fuel G p game depth maxi ms st = Some (r, st') \<Longrightarrow> run_ok p st r st'"
proof (induction ms arbitrary: st r st')
  case Nil
  then show ?case by (auto simp add: run_ok_refl)
next
  case (Cons m ms)
  from Cons.prems obtain r1 st1 where
    c: "minimax fuel G p (forecast_move G game m) (depth - 1) (\<not> maxi) st = Some (r1, st1)"
    by (auto split: option.splits)
  note ok1 = assms [OF c]
  show ?case
  proof (cases r1)
    case (Inl e)
    with c Cons.prems have "r = Inl e" "st' = st1" by simp_all
    with ok1 Inl show ?thesis by (simp add: run_ok_error)
  next
    case (Inr v)
    with c Cons.prems obtain r2 st2 where
      l: "minimax_children fuel G p game depth maxi ms st1 = Some (r2, st2)"
      by (auto split: option.splits)
    note ok2 = Cons.IH [OF l]
    from ok1 Inr have "run_ok p st (Inr v) st1" by simp
    from run_ok_trans [OF this ok2] have ok: "run_ok p st r2 st2" .
    show ?thesis
    proof (cases r2)
      case (Inl e)
      with c l \<open>r1 = Inr v\<close> Cons.prems have "r = Inl e" "st' = st2" by simp_all
      with ok Inl show ?thesis by (simp add: run_ok_error)
    next
      case (Inr rest)
      with c l \<open>r1 = Inr v\<close> Cons.prems have "st' = st2" "\<not> isl r" by auto
      with ok Inr show ?thesis by (auto intro: run_ok_value)
    qed
  qed
qed

lemma minimax_run_ok:
  "minimax fuel G p game depth maxi st = Some (r, st')
   \<Longrightarrow> run_ok p st r st' \<and> ticks st < ticks st'"
proof (induction fuel arbitrary: game depth maxi st r st')
  case 0
  then show ?case by simp
next
  case (Suc fuel)
  let ?st1 = "st\<lparr>ticks := Suc (ticks st)\<rparr>"
  let ?L = "get_legal_moves G game None"
  show ?case
  proof (cases "below_threshold p (ticks st)")
    case True
    with Suc.prems have "r = Inl Timeout" "st' = ?st1"
      by (auto simp add: read_clock_def below_threshold_def)
    with True show ?thesis by (simp add: run_ok_abort)
  next
    case False
    note tick = run_ok_tick [OF False]
    have rest: "run_ok p ?st1 r st'"
    proof (cases "?L = []")
      case True
      with Suc.prems False have "r = Inr (score p game (self p), no_move)"
        "st' = ?st1\<lparr>evals := evals ?st1 @ [(game, self p)]\<rparr>"
        by (auto simp add: read_clock_def below_threshold_def call_score_def)
      then show ?thesis
        using run_ok_evals [of "[(game, self p)]" p ?st1 "(score p game (self p), no_move)"]
        by simp
    next
      case ne: False
      show ?thesis
      proof (cases "depth = 1")
        case True
        from ne obtain c cs where cs:
          "map (\<lambda>m. (score p (forecast_move G game m) (self p), m)) ?L = c # cs"
          by (cases ?L) auto
        from True Suc.prems False ne have
          "st' = ?st1\<lparr>evals := evals ?st1 @ map (\<lambda>m. (forecast_move G game m, self p)) ?L\<rparr>"
          "\<not> isl r"
          by (auto simp add: read_clock_def below_threshold_def score_children_eq Let_def cs
              py_max_Cons py_min_Cons split: if_splits)
        then show ?thesis
          using run_ok_evals [of "map (\<lambda>m. (forecast_move G game m, self p)) ?L" p ?st1 "()"]
          by (auto intro: run_ok_value)
      next
        case d: False
        from d Suc.prems False ne obtain r2 st2 where
          l: "minimax_children fuel G p game depth maxi ?L ?st1 = Some (r2, st2)"
          by (auto simp add: read_clock_def below_threshold_def Let_def split: option.splits)
        have ok: "run_ok p ?st1 r2 st2"
          using minimax_children_run_ok [OF _ l] Suc.IH by blast
        show ?thesis
        proof (cases r2)
          case (Inl e)
          with l d Suc.prems False ne have "r = Inl e" "st' = st2"
            by (simp_all add: read_clock_def below_threshold_def Let_def)
          with ok Inl show ?thesis by (simp add: run_ok_error)
        next
          case (Inr children)
          with l have "map snd children = ?L" by (simp add: minimax_children_moves)
          with ne obtain c cs where cs: "children = c # cs" by (cases children) auto
          with Inr l d Suc.prems False ne have "st' = st2" "\<not> isl r"
            by (auto simp add: read_clock_def below_threshold_def Let_def
                py_max_Cons py_min_Cons split: if_splits)
          with ok Inr show ?thesis by (auto intro: run_ok_value)
        qed
      qed
    qed
    from run_ok_trans [OF tick rest] run_ok_ticks_le [OF rest]
    show ?thesis by simp
  qed
qed

lemma alphabeta_loop_run_ok:
  assumes "\<And>g a b mx st r st'. alphabeta fuel G p g (depth - 1) a b mx st = Some (r, st')
             \<Longrightarrow> run_ok p st r st'"
  shows "alphabeta_loop fuel G p game depth maxi ms alpha beta bs bm st = Some (r, st')
         \<Longrightarrow> run_ok p st r st'"
proof (induction ms arbitrary: alpha beta bs bm st r st' maxi)
  case Nil
  then show ?case by (auto simp add: run_ok_refl)
next
  case (Cons m ms)
  from Cons.prems obtain r1 st1 where
    c: "alphabeta fuel G p (forecast_move G game m) (depth - 1) alpha beta (\<not> maxi) st
          = Some (r1, st1)"
    by (auto split: option.splits)
  note ok1 = assms [OF c]
  show ?case
  proof (cases r1)
    case (Inl e)
    with c Cons.prems have "r = Inl e" "st' = st1" by simp_all
    with ok1 Inl show ?thesis by (simp add: run_ok_error)
  next
    case (Inr v)
    with ok1 have okv: "run_ok p st (Inr v) st1" by simp
    let ?imp = "(maxi \<and> fst v > bs) \<or> (\<not> maxi \<and> fst v < bs)"
    have eq: "alphabeta_loop fuel G p game depth maxi (m # ms) alpha beta bs bm st =
        (if ?imp then
           if prune alpha beta (fst v) maxi then Some (Inr (fst v, m), st1)
           else alphabeta_loop fuel G p game depth maxi ms
                  (fst (update_limit alpha beta (fst v) maxi))
                  (snd (update_limit alpha beta (fst v) maxi)) (fst v) m st1
         else alphabeta_loop fuel G p game depth maxi ms alpha beta bs bm st1)"
      using c Inr by (simp add: Let_def split: prod.splits)
    show ?thesis
    proof (cases ?imp)
      case False
      with eq Cons.prems have
        "alphabeta_loop fuel G p game depth maxi ms alpha beta bs bm st1 = Some (r, st')"
        by simp
      from run_ok_trans [OF okv Cons.IH [OF this]] show ?thesis .
    next
      case True
      show ?thesis
      proof (cases "prune alpha beta (fst v) maxi")
        case pr: True
        with eq True Cons.prems have "r = Inr (fst v, m)" "st' = st1" by simp_all
        with okv show ?thesis by (auto intro: run_ok_value)
      next
        case pr: False
        with eq True Cons.prems have
          "alphabeta_loop fuel G p game depth maxi ms
             (fst (update_limit alpha beta (fst v) maxi))
             (snd (update_limit alpha beta (fst v) maxi)) (fst v) m st1 = Some (r, st')"
          by simp
        from run_ok_trans [OF okv Cons.IH [OF this]] show ?thesis .
      qed
    qed
  qed
qed

lemma alphabeta_run_ok:
  "alphabeta fuel G p game depth alpha beta maxi st = Some (r, st')
   \<Longrightarrow> run_ok p st r st' \<and> ticks st < ticks st'"
proof (induction fuel arbitrary: game depth alpha beta maxi st r st')
  case 0
  then show ?case by simp
next
  case (Suc fuel)
  let ?st1 = "st\<lparr>ticks := Suc (ticks st)\<rparr>"
  let ?L = "get_legal_moves G game None"
  show ?case
  proof (cases "below_threshold p (ticks st)")
    case True
    with Suc.prems have "r = Inl Timeout" "st' = ?st1"
      by (auto simp add: read_clock_def below_threshold_def)
    with True show ?thesis by (simp add: run_ok_abort)
  next
    case False
    note tick = run_ok_tick [OF False]
    have rest: "run_ok p ?st1 r st'"
    proof (cases "depth = 0 \<or> ?L = []")
      case True
      with Suc.prems False have "r = Inr (score p game (self p), no_move)"
        "st' = ?st1\<lparr>evals := evals ?st1 @ [(game, self p)]\<rparr>"
        by (auto simp add: read_clock_def below_threshold_def call_score_def)
      then show ?thesis
        using run_ok_evals [of "[(game, self p)]" p ?st1 "(score p game (self p), no_move)"]
        by simp
    next
      case ne: False
      with Suc.prems False have
        l: "alphabeta_loop fuel G p game depth maxi ?L alpha beta
              (if maxi then NegInf else PosInf) (hd ?L) ?st1 = Some (r, st')"
        by (auto simp add: read_clock_def below_threshold_def Let_def)
      show ?thesis
        using alphabeta_loop_run_ok [OF _ l] Suc.IH by blast
    qed
    from run_ok_trans [OF tick rest] run_ok_ticks_le [OF rest]
    show ?thesis by simp
  qed
qed






lemma deepen_chain:
  assumes "length ms = k" and "length sts = Suc k"
    and "\<forall>i<k. \<exists>s. search game (d + int i) True (sts ! i)
                      = Some (Inr (s, ms ! i), sts ! Suc i)"
    and "search game (d + int k) True (sts ! k) = Some (Inl Timeout, st_end)"
    and "k < n"
  shows "deepen n search game d best (sts ! 0) = Some (Inr (last (best # ms)), st_end)"
  using assms
proof (induction k arbitrary: n d best ms sts)
  case 0
  then obtain n' where "n = Suc n'" by (cases n) auto
  with 0 show ?case by simp
next
  case (Suc k)
  then obtain n' where n: "n = Suc n'" by (cases n) auto
  from Suc.prems(1) obtain m ms' where ms: "ms = m # ms'" "length ms' = k"
    by (cases ms) auto
  from Suc.prems(2) obtain s0 sts' where sts: "sts = s0 # sts'" "length sts' = Suc k"
    by (cases sts) auto
  from Suc.prems(3) [rule_format, of 0] ms sts obtain s where
    first: "search game d True s0 = Some (Inr (s, m), sts' ! 0)"
    by auto
  have rest: "\<forall>i<k. \<exists>s. search game (d + 1 + int i) True (sts' ! i)
      = Some (Inr (s, ms' ! i), sts' ! Suc i)"
  proof (intro allI impI)
    fix i assume "i < k"
    then have "Suc i < Suc k" by simp
    from Suc.prems(3) [rule_format, OF this] ms sts
    show "\<exists>s. search game (d + 1 + int i) True (sts' ! i)
        = Some (Inr (s, ms' ! i), sts' ! Suc i)"
      by (simp add: add.assoc)
  qed
  have last: "search game (d + 1 + int k) True (sts' ! k) = Some (Inl Timeout, st_end)"
    using Suc.prems(4) sts by (simp add: add.assoc)
  from Suc.prems(5) n have "k < n'" by simp
  from Suc.IH [OF ms(2) sts(2) rest last this, of m]
  have "deepen n' search game (d + 1) m (sts' ! 0) = Some (Inr (last (m # ms')), st_end)" .
  with first n ms sts show ?case by simp
qed

lemma deepen_chain_conv:
  assumes "deepen n search game d best st = Some (Inr mv, st_end)"
  shows "\<exists>k ms sts. k < n \<and> length ms = k \<and> length sts = Suc k \<and> sts ! 0 = st \<and>
           (\<forall>i<k. \<exists>s. search game (d + int i) True (sts ! i)
                         = Some (Inr (s, ms ! i), sts ! Suc i)) \<and>
           search game (d + int k) True (sts ! k) = Some (Inl Timeout, st_end) \<and>
           mv = last (best # ms)"
  using assms
proof (induction n arbitrary: d best st)
  case 0
  then show ?case by simp
next
  case (Suc n)
  from Suc.prems obtain r1 st1 where s: "search game d True st = Some (r1, st1)"
    by (auto split: option.splits)
  show ?case
  proof (cases r1)
    case (Inl e)
    with s Suc.prems have e: "e = Timeout" "mv = best" "st_end = st1"
      by (cases e; simp)+
    show ?thesis
      using s Inl e
      by (intro exI [of _ 0] exI [of _ "[]"] exI [of _ "[st]"]) simp
  next
    case (Inr v)
    with s Suc.prems have "deepen n search game (d + 1) (snd v) st1 = Some (Inr mv, st_end)"
      by simp
    from Suc.IH [OF this] obtain k ms sts where
      k: "k < n" "length ms = k" "length sts = Suc k" "sts ! 0 = st1"
      and ch: "\<forall>i<k. \<exists>s. search game (d + 1 + int i) True (sts ! i)
                 = Some (Inr (s, ms ! i), sts ! Suc i)"
      and en: "search game (d + 1 + int k) True (sts ! k) = Some (Inl Timeout, st_end)"
      and mv: "mv = last (snd v # ms)"
      by blast
    have ch': "\<forall>i<Suc k. \<exists>s. search game (d + int i) True ((st # sts) ! i)
                 = Some (Inr (s, (snd v # ms) ! i), (st # sts) ! Suc i)"
    proof (intro allI impI)
      fix i assume i: "i < Suc k"
      show "\<exists>s. search game (d + int i) True ((st # sts) ! i)
          = Some (Inr (s, (snd v # ms) ! i), (st # sts) ! Suc i)"
      proof (cases i)
        case 0
        with s Inr k(4) show ?thesis by (cases v) auto
      next
        case (Suc j)
        with i have "j < k" by simp
        from ch [rule_format, OF this] Suc show ?thesis
          by (simp add: add.assoc)
      qed
    qed
    show ?thesis
      using k ch' en mv
      by (intro exI [of _ "Suc k"] exI [of _ "snd v # ms"] exI [of _ "st # sts"])
        (simp add: add.assoc)
  qed
qed

section \<open>Selection by full tuples in minimax\<close>

text \<open>
  When \<^verbatim>\<open>minimax\<close> returns a pair on a board with legal moves, the pair is the maximum
  (maximizing layer) or the minimum (minimizing layer) of the list of children in the
  lexicographic order of the pairs (score, move).
\<close>

lemma minimax_tuple_order:
  assumes "minimax (Suc fuel) G p game depth maxi st = Some (Inr r, st')"
    and "get_legal_moves G game None \<noteq> []"
  shows
    "\<exists>children.
       (if depth = 1 then
          children = map (\<lambda>m. (score p (forecast_move G game m) (self p), m))
                       (get_legal_moves G game None)
        else
          minimax_children fuel G p game depth maxi (get_legal_moves G game None)
            (st\<lparr>ticks := Suc (ticks st)\<rparr>) = Some (Inr children, st') \<and>
          (\<forall>i < length children. \<exists>st1 st2 mv.
             minimax fuel G p (forecast_move G game (get_legal_moves G game None ! i))
               (depth - 1) (\<not> maxi) st1 = Some (Inr (fst (children ! i), mv), st2))) \<and>
       map snd children = get_legal_moves G game None \<and>
       r = (if maxi then Max (set children) else Min (set children)) \<and>
       r \<in> set children \<and>
       (\<forall>(s, m) \<in> set children.
          if maxi then
            s < fst r \<or> (s = fst r \<and>
              (fst m < fst (snd r) \<or> (fst m = fst (snd r) \<and> snd m \<le> snd (snd r))))
          else
            fst r < s \<or> (s = fst r \<and>
              (fst (snd r) < fst m \<or> (fst (snd r) = fst m \<and> snd (snd r) \<le> snd m))))"
proof -
  let ?L = "get_legal_moves G game None"
  from minimax_select [OF assms] obtain children where
    ch: "if depth = 1 then
           children = map (\<lambda>m. (score p (forecast_move G game m) (self p), m)) ?L
         else minimax_children fuel G p game depth maxi ?L (st\<lparr>ticks := Suc (ticks st)\<rparr>)
                = Some (Inr children, st')"
    and mv: "map snd children = ?L"
    and r: "r = (if maxi then Max (set children) else Min (set children))"
    by blast
  from mv have len: "length children = length ?L"
    by (metis length_map)
  have sc: "\<forall>i < length children. \<exists>st1 st2 mv.
      minimax fuel G p (forecast_move G game (?L ! i)) (depth - 1) (\<not> maxi) st1
        = Some (Inr (fst (children ! i), mv), st2)" if "depth \<noteq> 1"
    using that ch len minimax_children_scores [of fuel G p game depth maxi ?L _ children st']
    by auto
  from mv assms(2) have ne: "set children \<noteq> {}" by auto
  have fin: "finite (set children)" by simp
  have mem: "r \<in> set children"
    using r Max_in [OF fin ne] Min_in [OF fin ne] by (simp split: if_splits)
  have ord: "\<forall>c \<in> set children. if maxi then c \<le> r else r \<le> c"
    using r Max_ge [OF fin] Min_le [OF fin] by auto
  have tie: "\<forall>(s, m) \<in> set children.
      if maxi then
        s < fst r \<or> (s = fst r \<and>
          (fst m < fst (snd r) \<or> (fst m = fst (snd r) \<and> snd m \<le> snd (snd r))))
      else
        fst r < s \<or> (s = fst r \<and>
          (fst (snd r) < fst m \<or> (fst (snd r) = fst m \<and> snd (snd r) \<le> snd m)))"
  proof (clarify)
    fix s a b
    assume "(s, (a, b)) \<in> set children"
    with ord have o: "if maxi then (s, (a, b)) \<le> r else r \<le> (s, (a, b))" by blast
    obtain rs ra rb where rr: "r = (rs, (ra, rb))" by (cases r) auto
    show "if maxi then
        s < fst r \<or> (s = fst r \<and>
          (fst (a, b) < fst (snd r) \<or> (fst (a, b) = fst (snd r) \<and> snd (a, b) \<le> snd (snd r))))
      else
        fst r < s \<or> (s = fst r \<and>
          (fst (snd r) < fst (a, b) \<or> (fst (snd r) = fst (a, b) \<and> snd (snd r) \<le> snd (a, b))))"
      using o unfolding rr by (auto simp add: less_le)
  qed
  show ?thesis
    using ch mv r mem tie sc by (intro exI [of _ children]) (simp split: if_splits)
qed

text \<open>Two runs at depth 2 in the small game with an evaluator that is constant: every
  score is 3, so only the moves decide.\<close>

lemma flat_run:
  "minimax (Suc 2) toy_board flat_player 0 2 True start
     = Some (Inr (Fin 3, (0, 1)), \<lparr>ticks = 3, evals = [(3, True), (4, True), (5, True)]\<rparr>)"
  "minimax (Suc 2) toy_board flat_player 0 2 False start
     = Some (Inr (Fin 3, (0, 0)), \<lparr>ticks = 3, evals = [(3, True), (4, True), (5, True)]\<rparr>)"
  "minimax_children 2 toy_board flat_player 0 2 True [(0, 0), (0, 1)] \<lparr>ticks = 1, evals = []\<rparr>
     = Some (Inr [(Fin 3, (0, 0)), (Fin 3, (0, 1))],
             \<lparr>ticks = 3, evals = [(3, True), (4, True), (5, True)]\<rparr>)"
  by (simp_all add: flat_player_def toy_board_def toy_player_def toy_next_def toy_moves_def
      toy_clock_def start_def read_clock_def call_score_def py_max_def py_min_def
      eval_nat_numeral)

text \<open>
  C7. On a board with legal moves and for every depth from 1 on, \<^verbatim>\<open>minimax\<close> ends (given a
  nesting bound of at least the depth), and it either raises \<^verbatim>\<open>Timeout\<close>, one of its clock
  readings being below the threshold, or none is and it returns the maximum (maximizing
  layer) or the minimum (minimizing layer) of the list of children, in the lexicographic
  order of the pairs (score, move): the list has one pair per legal move, in order; at
  depth 1 the scores are the evaluations of the forecasted boards, at other depths the
  scores returned by \<^verbatim>\<open>minimax\<close> on the forecasted boards with depth - 1 and the flag
  flipped. So every child has a smaller (larger) score than the result, or the same score
  and a move that is smaller (larger) or equal, first by row, then by column. In the
  instance, at depth 2, both children of the root have the score 3: the maximizing root
  returns the second move (0, 1), the minimizing root the first move (0, 0).
\<close>

theorem minimax_full_tuple_selection:
  assumes "get_legal_moves G game None \<noteq> []" and "1 \<le> depth" and "nat depth \<le> Suc fuel"
  shows
    "(\<exists>res st'. minimax (Suc fuel) G p game depth maxi st = Some (res, st')) \<and>
     (\<forall>res st'. minimax (Suc fuel) G p game depth maxi st = Some (res, st') \<longrightarrow>
        (case res of
           Inl e \<Rightarrow> e = Timeout \<and> (\<exists>k \<in> {ticks st..<ticks st'}. below_threshold p k)
         | Inr r \<Rightarrow>
             (\<forall>k \<in> {ticks st..<ticks st'}. \<not> below_threshold p k) \<and>
             (\<exists>children.
                (if depth = 1 then
                   children = map (\<lambda>m. (score p (forecast_move G game m) (self p), m))
                                (get_legal_moves G game None)
                 else
                   minimax_children fuel G p game depth maxi (get_legal_moves G game None)
                     (st\<lparr>ticks := Suc (ticks st)\<rparr>) = Some (Inr children, st') \<and>
                   (\<forall>i < length children. \<exists>st1 st2 mv.
                      minimax fuel G p (forecast_move G game (get_legal_moves G game None ! i))
                        (depth - 1) (\<not> maxi) st1
                        = Some (Inr (fst (children ! i), mv), st2))) \<and>
                map snd children = get_legal_moves G game None \<and>
                r = (if maxi then Max (set children) else Min (set children)) \<and>
                r \<in> set children \<and>
                (\<forall>(s, m) \<in> set children.
                   if maxi then
                     s < fst r \<or> (s = fst r \<and>
                       (fst m < fst (snd r) \<or>
                        (fst m = fst (snd r) \<and> snd m \<le> snd (snd r))))
                   else
                     fst r < s \<or> (s = fst r \<and>
                       (fst (snd r) < fst m \<or>
                        (fst (snd r) = fst m \<and> snd (snd r) \<le> snd m)))))))"
proof (intro conjI allI impI)
  show "\<exists>res st'. minimax (Suc fuel) G p game depth maxi st = Some (res, st')"
    using minimax_total [OF assms(2,3), of G p game maxi st] by auto
next
  fix res st'
  assume run: "minimax (Suc fuel) G p game depth maxi st = Some (res, st')"
  from minimax_run_ok [OF run] have cr: "clock_respected p st res st'"
    by (simp add: run_ok_def)
  show "case res of
      Inl e \<Rightarrow> e = Timeout \<and> (\<exists>k \<in> {ticks st..<ticks st'}. below_threshold p k)
    | Inr r \<Rightarrow>
        (\<forall>k \<in> {ticks st..<ticks st'}. \<not> below_threshold p k) \<and>
        (\<exists>children.
           (if depth = 1 then
              children = map (\<lambda>m. (score p (forecast_move G game m) (self p), m))
                           (get_legal_moves G game None)
            else
              minimax_children fuel G p game depth maxi (get_legal_moves G game None)
                (st\<lparr>ticks := Suc (ticks st)\<rparr>) = Some (Inr children, st') \<and>
              (\<forall>i < length children. \<exists>st1 st2 mv.
                 minimax fuel G p (forecast_move G game (get_legal_moves G game None ! i))
                   (depth - 1) (\<not> maxi) st1
                   = Some (Inr (fst (children ! i), mv), st2))) \<and>
           map snd children = get_legal_moves G game None \<and>
           r = (if maxi then Max (set children) else Min (set children)) \<and>
           r \<in> set children \<and>
           (\<forall>(s, m) \<in> set children.
              if maxi then
                s < fst r \<or> (s = fst r \<and>
                  (fst m < fst (snd r) \<or>
                   (fst m = fst (snd r) \<and> snd m \<le> snd (snd r))))
              else
                fst r < s \<or> (s = fst r \<and>
                  (fst (snd r) < fst m \<or>
                   (fst (snd r) = fst m \<and> snd (snd r) \<le> snd m)))))"
  proof (cases res)
    case (Inl e)
    with cr have "e = Timeout" "ticks st < ticks st'" "below_threshold p (ticks st' - 1)"
      by (simp_all add: clock_respected_def)
    then have "e = Timeout \<and> (\<exists>k \<in> {ticks st..<ticks st'}. below_threshold p k)"
      by (auto intro!: bexI [of _ "ticks st' - 1"])
    with Inl show ?thesis by simp
  next
    case (Inr r)
    with cr have nb: "\<forall>k \<in> {ticks st..<ticks st'}. \<not> below_threshold p k"
      by (simp add: clock_respected_def)
    from run Inr have "minimax (Suc fuel) G p game depth maxi st = Some (Inr r, st')"
      by simp
    from minimax_tuple_order [OF this assms(1)] nb Inr show ?thesis
      by simp
  qed
qed

theorem minimax_full_tuple_selection_witness:
  "get_legal_moves toy_board 0 None \<noteq> [] \<and> (1::int) \<le> 2 \<and> nat 2 \<le> Suc 2 \<and>
   minimax (Suc 2) toy_board flat_player 0 2 True start
     = Some (Inr (Fin 3, (0, 1)), \<lparr>ticks = 3, evals = [(3, True), (4, True), (5, True)]\<rparr>) \<and>
   minimax (Suc 2) toy_board flat_player 0 2 False start
     = Some (Inr (Fin 3, (0, 0)), \<lparr>ticks = 3, evals = [(3, True), (4, True), (5, True)]\<rparr>) \<and>
   minimax_children 2 toy_board flat_player 0 2 True [(0, 0), (0, 1)] \<lparr>ticks = 1, evals = []\<rparr>
     = Some (Inr [(Fin 3, (0, 0)), (Fin 3, (0, 1))],
             \<lparr>ticks = 3, evals = [(3, True), (4, True), (5, True)]\<rparr>) \<and>
   (Fin 3, (0, 1)) = Max (set [(Fin 3, (0, 0)), (Fin 3, (0, 1)) :: pyfloat \<times> move]) \<and>
   \<not> below_threshold flat_player 0 \<and> \<not> below_threshold flat_player 1 \<and>
   \<not> below_threshold flat_player 2"
proof -
  have h: "get_legal_moves toy_board 0 None \<noteq> []" "(1::int) \<le> 2" "nat 2 \<le> Suc 2"
    by (simp_all add: toy_board_def toy_moves_def)
  from minimax_full_tuple_selection [OF h, of flat_player True start] flat_run(1)
  have nb: "\<forall>k \<in> {ticks start..<3}. \<not> below_threshold flat_player k"
    by simp
  then have "\<not> below_threshold flat_player 0" "\<not> below_threshold flat_player 1"
    "\<not> below_threshold flat_player 2"
    by (simp_all add: start_def)
  moreover have "(Fin 3, (0, 1)) = Max (set [(Fin 3, (0, 0)), (Fin 3, (0, 1)) :: pyfloat \<times> move])"
    by (simp add: max_def)
  ultimately show ?thesis
    using h flat_run by simp
qed

section \<open>The cancellation protocol\<close>



section \<open>Iterative deepening\<close>

text \<open>
  C5. In iterative mode, with legal moves and a supported method, \<open>search\<close> being the
  selected method: if the searches at depths 1, 2, ..., k return in turn (each from the
  trace the previous one left) the moves \<open>ms\<close>, and the search at depth k + 1 raises
  \<^verbatim>\<open>Timeout\<close>, then \<^verbatim>\<open>get_move\<close> returns the move of depth k, the last completed one (the
  first legal move when k = 0), for every k below the bound on the iterations. Conversely
  whenever \<^verbatim>\<open>get_move\<close> returns a move there is such a chain: it called the search at depths
  1, 2, ..., k + 1 and no others, the last call was aborted, and the move is that of depth
  k.
\<close>

theorem iterative_deepening:
  assumes "legal_moves \<noteq> []" and "iterative p"
    and "method_name p = ''minimax'' \<or> method_name p = ''alphabeta''"
    and "search = (if method_name p = ''minimax''
                   then minimax fuel G (p\<lparr>time_left := clock\<rparr>)
                   else (\<lambda>g d m. alphabeta fuel G (p\<lparr>time_left := clock\<rparr>) g d NegInf PosInf m))"
  shows
    "(length ms = k \<and> length sts = Suc k \<and>
      (\<forall>i<k. \<exists>s. search game (1 + int i) True (sts ! i) = Some (Inr (s, ms ! i), sts ! Suc i)) \<and>
      search game (1 + int k) True (sts ! k) = Some (Inl Timeout, st_end) \<and> k < fuel \<longrightarrow>
        get_move fuel G p game legal_moves clock (sts ! 0)
          = Some (Inr (last (hd legal_moves # ms)), st_end)) \<and>
     (get_move fuel G p game legal_moves clock st = Some (Inr mv, st') \<longrightarrow>
        (\<exists>k ms sts. k < fuel \<and> length ms = k \<and> length sts = Suc k \<and> sts ! 0 = st \<and>
           (\<forall>i<k. \<exists>s. search game (1 + int i) True (sts ! i)
                         = Some (Inr (s, ms ! i), sts ! Suc i)) \<and>
           search game (1 + int k) True (sts ! k) = Some (Inl Timeout, st') \<and>
           mv = last (hd legal_moves # ms)))"
proof -
  have gm: "get_move fuel G p game legal_moves clock st0
      = deepen fuel search game 1 (hd legal_moves) st0" for st0
    using assms by (auto simp add: get_move_def try_search_def Let_def)
  show ?thesis
    unfolding gm
    using deepen_chain [of ms k sts search game 1 st_end fuel "hd legal_moves"]
      deepen_chain_conv [of fuel search game 1 "hd legal_moves" st mv st']
    by blast
qed

theorem iterative_deepening_witness:
  "get_move 5 toy_board (toy_player ''minimax'' True 3 0) 0 [(0, 0), (0, 1)] (toy_clock 5) start
     = Some (Inr (0, 1),
             \<lparr>ticks = 6, evals = [(1, True), (2, True), (3, True), (4, True), (5, True)]\<rparr>) \<and>
   minimax 5 toy_board ((toy_player ''minimax'' True 3 0)\<lparr>time_left := toy_clock 5\<rparr>) 0 1 True
     start = Some (Inr (Fin 2, (0, 1)), \<lparr>ticks = 1, evals = [(1, True), (2, True)]\<rparr>) \<and>
   minimax 5 toy_board ((toy_player ''minimax'' True 3 0)\<lparr>time_left := toy_clock 5\<rparr>) 0 2 True
     \<lparr>ticks = 1, evals = [(1, True), (2, True)]\<rparr>
     = Some (Inr (Fin 3, (0, 1)),
             \<lparr>ticks = 4, evals = [(1, True), (2, True), (3, True), (4, True), (5, True)]\<rparr>) \<and>
   minimax 5 toy_board ((toy_player ''minimax'' True 3 0)\<lparr>time_left := toy_clock 5\<rparr>) 0 3 True
     \<lparr>ticks = 4, evals = [(1, True), (2, True), (3, True), (4, True), (5, True)]\<rparr>
     = Some (Inl Timeout,
             \<lparr>ticks = 6, evals = [(1, True), (2, True), (3, True), (4, True), (5, True)]\<rparr>)"
proof -
  let ?p = "toy_player ''minimax'' True 3 0"
  let ?q = "?p\<lparr>time_left := toy_clock 5\<rparr>"
  let ?s1 = "\<lparr>ticks = 1, evals = [(1, True), (2, True)]\<rparr> :: (nat, bool) trace"
  let ?s2 = "\<lparr>ticks = 4, evals = [(1, True), (2, True), (3, True), (4, True), (5, True)]\<rparr>
               :: (nat, bool) trace"
  let ?s3 = "\<lparr>ticks = 6, evals = [(1, True), (2, True), (3, True), (4, True), (5, True)]\<rparr>
               :: (nat, bool) trace"
  have d1: "minimax 5 toy_board ?q 0 1 True start = Some (Inr (Fin 2, (0, 1)), ?s1)"
    by (simp add: toy_board_def toy_player_def toy_next_def toy_moves_def toy_score_def
        toy_clock_def start_def read_clock_def call_score_def py_max_def eval_nat_numeral)
  have d2: "minimax 5 toy_board ?q 0 2 True ?s1 = Some (Inr (Fin 3, (0, 1)), ?s2)"
    by (simp add: toy_board_def toy_player_def toy_next_def toy_moves_def toy_score_def
        toy_clock_def read_clock_def call_score_def py_max_def py_min_def eval_nat_numeral)
  have d3: "minimax 5 toy_board ?q 0 3 True ?s2 = Some (Inl Timeout, ?s3)"
    by (simp add: toy_board_def toy_player_def toy_next_def toy_moves_def toy_score_def
        toy_clock_def read_clock_def call_score_def py_max_def py_min_def eval_nat_numeral)
  have chain: "\<forall>i<2. \<exists>s. minimax 5 toy_board ?q 0 (1 + int i) True ([start, ?s1, ?s2] ! i)
      = Some (Inr (s, [(0, 1), (0, 1)] ! i), [start, ?s1, ?s2] ! Suc i)"
  proof (intro allI impI)
    fix i :: nat assume "i < 2"
    then consider "i = 0" | "i = 1" by linarith
    then show "\<exists>s. minimax 5 toy_board ?q 0 (1 + int i) True ([start, ?s1, ?s2] ! i)
        = Some (Inr (s, [(0, 1), (0, 1)] ! i), [start, ?s1, ?s2] ! Suc i)"
    proof cases
      case 1 with d1 show ?thesis by simp
    next
      case 2 with d2 show ?thesis by simp
    qed
  qed
  have "get_move 5 toy_board ?p 0 [(0, 0), (0, 1)] (toy_clock 5) ([start, ?s1, ?s2] ! 0)
      = Some (Inr (last (hd [(0, 0), (0, 1)] # [(0, 1), (0, 1)])), ?s3)"
    using iterative_deepening [where p = ?p and legal_moves = "[(0, 0), (0, 1)]"
        and fuel = 5 and G = toy_board and clock = "toy_clock 5" and game = 0
        and search = "minimax 5 toy_board ?q" and ms = "[(0, 1), (0, 1)]" and k = 2
        and sts = "[start, ?s1, ?s2]" and st_end = ?s3] chain d3
    by (simp add: toy_player_def)
  with d1 d2 d3 show ?thesis by simp
qed

section \<open>The perspective of the evaluator\<close>

text \<open>
  C10. For every board, depth, flag and bounds, and whether the call returns or raises:
  every call of the evaluator made during a call of \<^verbatim>\<open>minimax\<close> or \<^verbatim>\<open>alphabeta\<close>, at any
  depth of the recursion, has the player itself as its perspective argument. The flag does
  not enter: in the instance below the same boards are evaluated for the same player on a
  maximizing and on a minimizing root.
\<close>

theorem evaluator_perspective_is_self:
  "(minimax fuel G p game depth maxi st = Some (r, st') \<longrightarrow> evals_by_self p st st') \<and>
   (alphabeta fuel G p game depth alpha beta maxi st = Some (r2, st2) \<longrightarrow>
      evals_by_self p st st2)"
  using minimax_run_ok [of fuel G p game depth maxi st r st']
    alphabeta_run_ok [of fuel G p game depth alpha beta maxi st r2 st2]
  by (simp add: run_ok_def)

theorem evaluator_perspective_is_self_witness:
  "minimax 3 toy_board (toy_player ''minimax'' False 2 9) 0 2 True start
     = Some (Inr (Fin 3, (0, 1)), \<lparr>ticks = 3, evals = [(3, True), (4, True), (5, True)]\<rparr>) \<and>
   alphabeta 3 toy_board (toy_player ''minimax'' False 2 9) 0 2 NegInf PosInf False start
     = Some (Inr (Fin 3, (0, 0)), \<lparr>ticks = 6, evals = [(3, True), (4, True), (5, True)]\<rparr>) \<and>
   self (toy_player ''minimax'' False 2 9) = True \<and>
   evals_by_self (toy_player ''minimax'' False 2 9) start
     \<lparr>ticks = 3, evals = [(3, True), (4, True), (5, True)]\<rparr> \<and>
   evals_by_self (toy_player ''minimax'' False 2 9) start
     \<lparr>ticks = 6, evals = [(3, True), (4, True), (5, True)]\<rparr>"
proof -
  let ?p = "toy_player ''minimax'' False 2 9"
  have m: "minimax 3 toy_board ?p 0 2 True start
      = Some (Inr (Fin 3, (0, 1)), \<lparr>ticks = 3, evals = [(3, True), (4, True), (5, True)]\<rparr>)"
    by (simp add: toy_board_def toy_player_def toy_next_def toy_moves_def toy_score_def
        toy_clock_def start_def read_clock_def call_score_def py_max_def py_min_def
        eval_nat_numeral)
  have a: "alphabeta 3 toy_board ?p 0 2 NegInf PosInf False start
      = Some (Inr (Fin 3, (0, 0)), \<lparr>ticks = 6, evals = [(3, True), (4, True), (5, True)]\<rparr>)"
    by (simp add: toy_board_def toy_player_def toy_next_def toy_moves_def toy_score_def
        toy_clock_def start_def read_clock_def call_score_def prune_def update_limit_def
        no_move_def eval_nat_numeral)
  from evaluator_perspective_is_self [where p = ?p and fuel = 3 and G = toy_board
      and game = 0 and depth = 2 and maxi = True and st = start
      and r = "Inr (Fin 3, (0, 1))"
      and st' = "\<lparr>ticks = 3, evals = [(3, True), (4, True), (5, True)]\<rparr>"] m
  have e1: "evals_by_self ?p start \<lparr>ticks = 3, evals = [(3, True), (4, True), (5, True)]\<rparr>"
    by simp
  have e2: "evals_by_self ?p start \<lparr>ticks = 6, evals = [(3, True), (4, True), (5, True)]\<rparr>"
    by (simp add: evals_by_self_def start_def toy_player_def)
  have "self ?p = True" by (simp add: toy_player_def)
  with m a e1 e2 show ?thesis by simp
qed

end
